theory Spec2Isabelle
  imports Complex_Main "HOL-Library.Signed_Division" "HOL-Library.Word"
begin

section \<open>The matchup predictor of ufc\_nn.c\<close>

text \<open>
  The theory embeds the parts of \<^verbatim>\<open>src/model/ufc_nn.c\<close> that the properties below
  are about. Conventions of the embedding:
  \<^item> \<^verbatim>\<open>double\<close> and \<^verbatim>\<open>long double\<close> values are real numbers, and the functions
    named after the C functions compute exactly; the sigmoid and the forward pass are
    embedded a second time with the rounding of \<^verbatim>\<open>long double\<close> (\<open>sigmoid_ld\<close>,
    \<open>forward_ld\<close>), and a division by a stored deviation of 0, whose C result is
    not a real number, ends a query as a value of its own;
  \<^item> a C string is the list of its bytes before the terminating NUL;
  \<^item> \<^verbatim>\<open>int\<close> counters are unbounded integers (a counter of the context grows by at
    most two per observation);
  \<^item> a pointer into a growable array is the pair of the array's address and an index;
    \<^verbatim>\<open>realloc\<close> may fail, grow the block where it is, or move it, as an allocator
    parameter decides, and a pointer into a block that has moved is no longer valid.
\<close>

subsection \<open>Strings\<close>

text \<open>\<^verbatim>\<open>strcmp\<close>: the sign of the first differing byte, bytes compared as unsigned.\<close>

fun strcmp :: "string \<Rightarrow> string \<Rightarrow> int" where
  "strcmp [] [] = 0"
| "strcmp [] (y # ys) = - 1"
| "strcmp (x # xs) [] = 1"
| "strcmp (x # xs) (y # ys) =
     (if x = y then strcmp xs ys
      else if (of_char x :: nat) < of_char y then - 1 else 1)"

text \<open>\<^verbatim>\<open>strncpy(dst, src, sizeof(dst) - 1)\<close> into a zeroed 64-byte field.\<close>

definition strncpy63 :: "string \<Rightarrow> string" where
  "strncpy63 s = take 63 s"

subsection \<open>Context records\<close>

record FighterRecord =
  name :: string
  fr_weight_class :: string
  wins :: int
  losses :: int
  total :: int

record HeadToHeadRecord =
  name_a :: string
  name_b :: string
  h2h_weight_class :: string
  wins_a :: int
  wins_b :: int
  h2h_total :: int

text \<open>
  \<^verbatim>\<open>fighter_count\<close> and \<^verbatim>\<open>h2h_count\<close> are the lengths of the two lists; the
  address fields stand for the values of the pointers \<^verbatim>\<open>ctx->fighters\<close> and
  \<^verbatim>\<open>ctx->h2h\<close>.
\<close>

record MatchContext =
  fighters :: "FighterRecord list"
  fighter_cap :: nat
  fighters_addr :: nat
  h2h :: "HeadToHeadRecord list"
  h2h_cap :: nat
  h2h_addr :: nat

record UFCFight =
  event_date :: string
  weight_class :: string
  fighter1 :: string
  fighter2 :: string
  f1_height :: real
  f1_reach :: real
  f1_age :: real
  f1_sig_strikes_pm :: real
  f1_sig_strikes_acc :: real
  f1_sig_strikes_abs :: real
  f1_sig_strikes_def :: real
  f1_takedown_avg :: real
  f1_takedown_acc :: real
  f1_takedown_def :: real
  f1_sub_avg :: real
  f1_weight :: real
  f2_height :: real
  f2_reach :: real
  f2_age :: real
  f2_sig_strikes_pm :: real
  f2_sig_strikes_acc :: real
  f2_sig_strikes_abs :: real
  f2_sig_strikes_def :: real
  f2_takedown_avg :: real
  f2_takedown_acc :: real
  f2_takedown_def :: real
  f2_sub_avg :: real
  f2_weight :: real
  label :: int

datatype array_id = Fighters_Array | H2H_Array

datatype realloc_outcome = Realloc_Failed | Realloc_In_Place | Realloc_Moved

type_synonym allocator = "array_id \<Rightarrow> nat \<Rightarrow> realloc_outcome"

datatype error = Use_After_Realloc

type_synonym record_ptr = "nat \<times> nat"

definition init_context :: MatchContext where
  "init_context =
     \<lparr>fighters = [], fighter_cap = 0, fighters_addr = 0,
      h2h = [], h2h_cap = 0, h2h_addr = 0\<rparr>"

definition ensure_fighter_cap :: "allocator \<Rightarrow> MatchContext \<Rightarrow> MatchContext option" where
  "ensure_fighter_cap al ctx =
     (if length (fighters ctx) < fighter_cap ctx then Some ctx
      else
        let next_cap = (if fighter_cap ctx = 0 then 128 else fighter_cap ctx * 2) in
        case al Fighters_Array next_cap of
          Realloc_Failed \<Rightarrow> None
        | Realloc_In_Place \<Rightarrow> Some (ctx\<lparr>fighter_cap := next_cap\<rparr>)
        | Realloc_Moved \<Rightarrow>
            Some (ctx\<lparr>fighter_cap := next_cap, fighters_addr := Suc (fighters_addr ctx)\<rparr>))"

definition ensure_h2h_cap :: "allocator \<Rightarrow> MatchContext \<Rightarrow> MatchContext option" where
  "ensure_h2h_cap al ctx =
     (if length (h2h ctx) < h2h_cap ctx then Some ctx
      else
        let next_cap = (if h2h_cap ctx = 0 then 128 else h2h_cap ctx * 2) in
        case al H2H_Array next_cap of
          Realloc_Failed \<Rightarrow> None
        | Realloc_In_Place \<Rightarrow> Some (ctx\<lparr>h2h_cap := next_cap\<rparr>)
        | Realloc_Moved \<Rightarrow>
            Some (ctx\<lparr>h2h_cap := next_cap, h2h_addr := Suc (h2h_addr ctx)\<rparr>))"

text \<open>The search loops of the two get-or-add functions: the first matching index.\<close>

fun fighter_index :: "FighterRecord list \<Rightarrow> string \<Rightarrow> string \<Rightarrow> nat option" where
  "fighter_index [] n w = None"
| "fighter_index (r # rs) n w =
     (if strcmp (name r) n = 0 \<and> strcmp (fr_weight_class r) w = 0 then Some 0
      else map_option Suc (fighter_index rs n w))"

fun h2h_index :: "HeadToHeadRecord list \<Rightarrow> string \<Rightarrow> string \<Rightarrow> string \<Rightarrow> nat option" where
  "h2h_index [] l r w = None"
| "h2h_index (h # hs) l r w =
     (if strcmp (name_a h) l = 0 \<and> strcmp (name_b h) r = 0 \<and> strcmp (h2h_weight_class h) w = 0
      then Some 0
      else map_option Suc (h2h_index hs l r w))"

definition get_or_add_fighter ::
  "allocator \<Rightarrow> MatchContext \<Rightarrow> string \<Rightarrow> string \<Rightarrow> record_ptr option \<times> MatchContext" where
  "get_or_add_fighter al ctx n w =
     (case fighter_index (fighters ctx) n w of
        Some i \<Rightarrow> (Some (fighters_addr ctx, i), ctx)
      | None \<Rightarrow>
          (case ensure_fighter_cap al ctx of
             None \<Rightarrow> (None, ctx)
           | Some c \<Rightarrow>
               (Some (fighters_addr c, length (fighters c)),
                c\<lparr>fighters := fighters c @
                   [\<lparr>name = strncpy63 n, fr_weight_class = strncpy63 w,
                     wins = 0, losses = 0, total = 0\<rparr>]\<rparr>)))"

definition get_or_add_h2h ::
  "allocator \<Rightarrow> MatchContext \<Rightarrow> string \<Rightarrow> string \<Rightarrow> string \<Rightarrow> record_ptr option \<times> MatchContext" where
  "get_or_add_h2h al ctx f1 f2 w =
     (let left = (if strcmp f1 f2 > 0 then f2 else f1);
          right = (if strcmp f1 f2 > 0 then f1 else f2) in
      case h2h_index (h2h ctx) left right w of
        Some i \<Rightarrow> (Some (h2h_addr ctx, i), ctx)
      | None \<Rightarrow>
          (case ensure_h2h_cap al ctx of
             None \<Rightarrow> (None, ctx)
           | Some c \<Rightarrow>
               (Some (h2h_addr c, length (h2h c)),
                c\<lparr>h2h := h2h c @
                   [\<lparr>name_a = strncpy63 left, name_b = strncpy63 right,
                     h2h_weight_class = strncpy63 w,
                     wins_a = 0, wins_b = 0, h2h_total = 0\<rparr>]\<rparr>)))"

text \<open>Reading and writing through a record pointer; a stale pointer is an error.\<close>

definition read_fighter :: "MatchContext \<Rightarrow> record_ptr \<Rightarrow> error + FighterRecord" where
  "read_fighter ctx p =
     (if fst p = fighters_addr ctx \<and> snd p < length (fighters ctx)
      then Inr (fighters ctx ! snd p) else Inl Use_After_Realloc)"

definition modify_fighter ::
  "record_ptr \<Rightarrow> (FighterRecord \<Rightarrow> FighterRecord) \<Rightarrow> MatchContext \<Rightarrow> error + MatchContext" where
  "modify_fighter p g ctx =
     (if fst p = fighters_addr ctx \<and> snd p < length (fighters ctx)
      then Inr (ctx\<lparr>fighters := (fighters ctx)[snd p := g (fighters ctx ! snd p)]\<rparr>)
      else Inl Use_After_Realloc)"

definition read_h2h :: "MatchContext \<Rightarrow> record_ptr \<Rightarrow> error + HeadToHeadRecord" where
  "read_h2h ctx p =
     (if fst p = h2h_addr ctx \<and> snd p < length (h2h ctx)
      then Inr (h2h ctx ! snd p) else Inl Use_After_Realloc)"

definition modify_h2h ::
  "record_ptr \<Rightarrow> (HeadToHeadRecord \<Rightarrow> HeadToHeadRecord) \<Rightarrow> MatchContext \<Rightarrow> error + MatchContext" where
  "modify_h2h p g ctx =
     (if fst p = h2h_addr ctx \<and> snd p < length (h2h ctx)
      then Inr (ctx\<lparr>h2h := (h2h ctx)[snd p := g (h2h ctx ! snd p)]\<rparr>)
      else Inl Use_After_Realloc)"

definition bind_err :: "'e + 'a \<Rightarrow> ('a \<Rightarrow> 'e + 'b) \<Rightarrow> 'e + 'b" where
  "bind_err m k = (case m of Inl e \<Rightarrow> Inl e | Inr x \<Rightarrow> k x)"

text \<open>
  \<^verbatim>\<open>update_context_with_result\<close>: the three lookups, the early return when one of
  them is NULL, then the increments in the order of the source. The winner's name is
  compared with \<^verbatim>\<open>h->name_a\<close> read through the head-to-head pointer.
\<close>

definition update_context_with_result ::
  "allocator \<Rightarrow> MatchContext \<Rightarrow> UFCFight \<Rightarrow> error + MatchContext" where
  "update_context_with_result al ctx fight =
     (let (r1, c1) = get_or_add_fighter al ctx (fighter1 fight) (weight_class fight);
          (r2, c2) = get_or_add_fighter al c1 (fighter2 fight) (weight_class fight);
          (h, c3) = get_or_add_h2h al c2 (fighter1 fight) (fighter2 fight) (weight_class fight)
      in case (r1, r2, h) of
           (Some p1, Some p2, Some ph) \<Rightarrow>
             bind_err (modify_fighter p1 (\<lambda>r. r\<lparr>total := total r + 1\<rparr>) c3) (\<lambda>c4.
             bind_err (modify_fighter p2 (\<lambda>r. r\<lparr>total := total r + 1\<rparr>) c4) (\<lambda>c5.
             bind_err (modify_h2h ph (\<lambda>r. r\<lparr>h2h_total := h2h_total r + 1\<rparr>) c5) (\<lambda>c6.
             if label fight = 1 then
               bind_err (modify_fighter p1 (\<lambda>r. r\<lparr>wins := wins r + 1\<rparr>) c6) (\<lambda>c7.
               bind_err (modify_fighter p2 (\<lambda>r. r\<lparr>losses := losses r + 1\<rparr>) c7) (\<lambda>c8.
               bind_err (read_h2h c8 ph) (\<lambda>hr.
               if strcmp (name_a hr) (fighter1 fight) = 0
               then modify_h2h ph (\<lambda>r. r\<lparr>wins_a := wins_a r + 1\<rparr>) c8
               else modify_h2h ph (\<lambda>r. r\<lparr>wins_b := wins_b r + 1\<rparr>) c8)))
             else if label fight = 0 then
               bind_err (modify_fighter p2 (\<lambda>r. r\<lparr>wins := wins r + 1\<rparr>) c6) (\<lambda>c7.
               bind_err (modify_fighter p1 (\<lambda>r. r\<lparr>losses := losses r + 1\<rparr>) c7) (\<lambda>c8.
               bind_err (read_h2h c8 ph) (\<lambda>hr.
               if strcmp (name_a hr) (fighter2 fight) = 0
               then modify_h2h ph (\<lambda>r. r\<lparr>wins_a := wins_a r + 1\<rparr>) c8
               else modify_h2h ph (\<lambda>r. r\<lparr>wins_b := wins_b r + 1\<rparr>) c8)))
             else Inr c6)))
         | _ \<Rightarrow> Inr c3)"

text \<open>
  The context-building loop of \<^verbatim>\<open>predict_interactive\<close>: every observation of the
  dataset is recorded, in order.
\<close>

fun update_all :: "allocator \<Rightarrow> MatchContext \<Rightarrow> UFCFight list \<Rightarrow> error + MatchContext" where
  "update_all al ctx [] = Inr ctx"
| "update_all al ctx (f # fs) =
     (case update_context_with_result al ctx f of
        Inl e \<Rightarrow> Inl e
      | Inr c \<Rightarrow> update_all al c fs)"

subsection \<open>Feature engineering\<close>

definition prior_win_rate :: "FighterRecord option \<Rightarrow> real" where
  "prior_win_rate rec =
     (case rec of
        None \<Rightarrow> 0.5
      | Some r \<Rightarrow>
          if total r = 0 then 0.5
          else (real_of_int (wins r) + 1.0) / (real_of_int (total r) + 2.0))"

text \<open>\<^verbatim>\<open>log1p(x)\<close> is \<open>ln (1 + x)\<close>.\<close>

definition weighted_score :: "FighterRecord option \<Rightarrow> real" where
  "weighted_score rec =
     (case rec of
        None \<Rightarrow> 0.0
      | Some r \<Rightarrow>
          if total r = 0 then 0.0
          else prior_win_rate rec * ln (1 + real_of_int (total r)))"

definition head_to_head_bias :: "HeadToHeadRecord option \<Rightarrow> string \<Rightarrow> string \<Rightarrow> real" where
  "head_to_head_bias rec f1 f2 =
     (case rec of
        None \<Rightarrow> 0.0
      | Some h \<Rightarrow>
          if h2h_total h = 0 then 0.0
          else
            let ws =
              (if strcmp (name_a h) f1 = 0 \<and> strcmp (name_b h) f2 = 0
               then (wins_a h, wins_b h)
               else if strcmp (name_a h) f2 = 0 \<and> strcmp (name_b h) f1 = 0
               then (wins_b h, wins_a h)
               else (0, 0))
            in real_of_int (fst ws - snd ws) / real_of_int (h2h_total h))"

abbreviation (input) INPUT_SIZE :: nat where "INPUT_SIZE \<equiv> 20"
abbreviation (input) HIDDEN_1_SIZE :: nat where "HIDDEN_1_SIZE \<equiv> 64"
abbreviation (input) HIDDEN_2_SIZE :: nat where "HIDDEN_2_SIZE \<equiv> 32"
abbreviation (input) OUTPUT_SIZE :: nat where "OUTPUT_SIZE \<equiv> 1"

abbreviation (input) FEAT_WIN_RATE_DELTA :: nat where "FEAT_WIN_RATE_DELTA \<equiv> 14"
abbreviation (input) FEAT_TOTAL_WINS_DELTA :: nat where "FEAT_TOTAL_WINS_DELTA \<equiv> 15"
abbreviation (input) FEAT_TOTAL_FIGHTS_DELTA :: nat where "FEAT_TOTAL_FIGHTS_DELTA \<equiv> 16"
abbreviation (input) FEAT_WEIGHTED_SCORE_DELTA :: nat where "FEAT_WEIGHTED_SCORE_DELTA \<equiv> 17"
abbreviation (input) FEAT_SUB_STYLE_DELTA :: nat where "FEAT_SUB_STYLE_DELTA \<equiv> 18"
abbreviation (input) FEAT_H2H_DELTA :: nat where "FEAT_H2H_DELTA \<equiv> 19"

text \<open>
  The twenty assignments of \<^verbatim>\<open>compute_features\<close>, listed by feature index 0 to 19;
  the three arguments after the fight are the records that \<^verbatim>\<open>r1\<close>, \<^verbatim>\<open>r2\<close> and
  \<^verbatim>\<open>h\<close> point to (\<open>None\<close> for a NULL pointer).
\<close>

definition feature_vector ::
  "UFCFight \<Rightarrow> FighterRecord option \<Rightarrow> FighterRecord option \<Rightarrow> HeadToHeadRecord option
     \<Rightarrow> real list" where
  "feature_vector fight r1 r2 h =
     (let f1_strike_net = f1_sig_strikes_pm fight - f1_sig_strikes_abs fight;
          f2_strike_net = f2_sig_strikes_pm fight - f2_sig_strikes_abs fight;
          f1_grapple = f1_takedown_avg fight * f1_takedown_acc fight + f1_sub_avg fight;
          f2_grapple = f2_takedown_avg fight * f2_takedown_acc fight + f2_sub_avg fight;
          wr1 = prior_win_rate r1;
          wr2 = prior_win_rate r2;
          wins1 = (case r1 of None \<Rightarrow> 0 | Some r \<Rightarrow> wins r);
          wins2 = (case r2 of None \<Rightarrow> 0 | Some r \<Rightarrow> wins r);
          fights1 = (case r1 of None \<Rightarrow> 0 | Some r \<Rightarrow> total r);
          fights2 = (case r2 of None \<Rightarrow> 0 | Some r \<Rightarrow> total r);
          wscore1 = weighted_score r1;
          wscore2 = weighted_score r2;
          style1 = (if f1_sub_avg fight \<ge> 1.0 then 1 else 0 :: int);
          style2 = (if f2_sub_avg fight \<ge> 1.0 then 1 else 0 :: int)
      in [f1_height fight - f2_height fight,
          f1_reach fight - f2_reach fight,
          f1_age fight - f2_age fight,
          f1_sig_strikes_pm fight - f2_sig_strikes_pm fight,
          f1_sig_strikes_acc fight - f2_sig_strikes_acc fight,
          f1_sig_strikes_abs fight - f2_sig_strikes_abs fight,
          f1_sig_strikes_def fight - f2_sig_strikes_def fight,
          f1_takedown_avg fight - f2_takedown_avg fight,
          f1_takedown_acc fight - f2_takedown_acc fight,
          f1_takedown_def fight - f2_takedown_def fight,
          f1_sub_avg fight - f2_sub_avg fight,
          f1_weight fight - f2_weight fight,
          f1_strike_net - f2_strike_net,
          f1_grapple - f2_grapple,
          wr1 - wr2,
          real_of_int (wins1 - wins2),
          real_of_int (fights1 - fights2),
          wscore1 - wscore2,
          real_of_int (style1 - style2),
          head_to_head_bias h (fighter1 fight) (fighter2 fight)])"

definition deref_fighter ::
  "MatchContext \<Rightarrow> record_ptr option \<Rightarrow> error + FighterRecord option" where
  "deref_fighter ctx r =
     (case r of
        None \<Rightarrow> Inr None
      | Some p \<Rightarrow> bind_err (read_fighter ctx p) (\<lambda>x. Inr (Some x)))"

definition deref_h2h ::
  "MatchContext \<Rightarrow> record_ptr option \<Rightarrow> error + HeadToHeadRecord option" where
  "deref_h2h ctx r =
     (case r of
        None \<Rightarrow> Inr None
      | Some p \<Rightarrow> bind_err (read_h2h ctx p) (\<lambda>x. Inr (Some x)))"

text \<open>
  \<^verbatim>\<open>compute_features\<close>: with a context, the three records are looked up (and added
  when missing) before the features are written (\<open>compute_features_with\<close>); without
  one, the three pointers stay NULL. The result is the feature array and the context as
  the call leaves it.
\<close>

definition compute_features_with ::
  "allocator \<Rightarrow> UFCFight \<Rightarrow> MatchContext \<Rightarrow> error + (real list \<times> MatchContext)" where
  "compute_features_with al fight ctx =
     (let (r1, c1) = get_or_add_fighter al ctx (fighter1 fight) (weight_class fight);
          (r2, c2) = get_or_add_fighter al c1 (fighter2 fight) (weight_class fight);
          (h, c3) = get_or_add_h2h al c2 (fighter1 fight) (fighter2 fight) (weight_class fight)
      in bind_err (deref_fighter c3 r1) (\<lambda>x1.
         bind_err (deref_fighter c3 r2) (\<lambda>x2.
         bind_err (deref_h2h c3 h) (\<lambda>xh.
         Inr (feature_vector fight x1 x2 xh, c3)))))"

definition compute_features ::
  "allocator \<Rightarrow> UFCFight \<Rightarrow> MatchContext option \<Rightarrow> error + (real list \<times> MatchContext option)" where
  "compute_features al fight ctx_opt =
     (case ctx_opt of
        None \<Rightarrow> Inr (feature_vector fight None None None, None)
      | Some ctx \<Rightarrow>
          bind_err (compute_features_with al fight ctx) (\<lambda>(feat, c). Inr (feat, Some c)))"

subsection \<open>The chronological split and the feature loop of train\<close>

text \<open>
  \<^verbatim>\<open>qsort\<close> with \<^verbatim>\<open>compare_fight_date\<close>. The C library leaves the order of
  observations with equal dates open; the model is an insertion sort. On a dataset whose
  dates strictly increase every sorting function returns the dataset unchanged.
\<close>

definition compare_fight_date :: "UFCFight \<Rightarrow> UFCFight \<Rightarrow> int" where
  "compare_fight_date a b = strcmp (event_date a) (event_date b)"

fun insert_fight :: "UFCFight \<Rightarrow> UFCFight list \<Rightarrow> UFCFight list" where
  "insert_fight f [] = [f]"
| "insert_fight f (g # gs) =
     (if compare_fight_date f g \<le> 0 then f # g # gs else g # insert_fight f gs)"

definition qsort_fights :: "UFCFight list \<Rightarrow> UFCFight list" where
  "qsort_fights fs = foldr insert_fight fs []"

definition chronological :: "UFCFight list \<Rightarrow> bool" where
  "chronological fs = sorted_wrt (\<lambda>a b. compare_fight_date a b < 0) fs"

text \<open>The 80 percent boundary, in C's truncating \<^verbatim>\<open>int\<close> division.\<close>

definition train_base_count :: "int \<Rightarrow> int" where
  "train_base_count num_samples =
     (let t0 = (num_samples * 8) sdiv 10;
          t1 = (if t0 < 1 then 1 else t0)
      in if t1 \<ge> num_samples then num_samples - 1 else t1)"

text \<open>
  The loop \<^verbatim>\<open>for (i = 0; i < num_samples; i++)\<close> of \<^verbatim>\<open>train\<close> and of
  \<^verbatim>\<open>evaluate_model\<close>: features of row \<open>i\<close> first, then the context update when
  \<open>i\<close> is below the boundary. A row of the result is the feature array and the label.
\<close>

fun feature_loop ::
  "allocator \<Rightarrow> int \<Rightarrow> nat \<Rightarrow> MatchContext \<Rightarrow> UFCFight list \<Rightarrow> error + (real list \<times> real) list" where
  "feature_loop al tbc i ctx [] = Inr []"
| "feature_loop al tbc i ctx (f # fs) =
     bind_err (compute_features_with al f ctx) (\<lambda>(feat, c1).
     bind_err (if int i < tbc then update_context_with_result al c1 f else Inr c1) (\<lambda>c2.
     bind_err (feature_loop al tbc (Suc i) c2 fs) (\<lambda>rows.
     Inr ((feat, real_of_int (label f)) # rows))))"

definition train_features :: "allocator \<Rightarrow> UFCFight list \<Rightarrow> error + (real list \<times> real) list" where
  "train_features al fights =
     feature_loop al (train_base_count (int (length fights))) 0 init_context
       (qsort_fights fights)"

text \<open>Feature \<open>j\<close> of row \<open>i\<close> of a finished feature loop.\<close>

definition feature_at :: "error + (real list \<times> real) list \<Rightarrow> nat \<Rightarrow> nat \<Rightarrow> real option" where
  "feature_at res i j =
     (case res of
        Inl e \<Rightarrow> None
      | Inr rows \<Rightarrow> if i < length rows then Some (fst (rows ! i) ! j) else None)"

subsection \<open>The model, normalization and the forward pass\<close>

record Model =
  w1 :: "real list list"
  b1 :: "real list"
  w2 :: "real list list"
  b2 :: "real list"
  w3 :: "real list list"
  b3 :: "real list"
  v_w1 :: "real list list"
  v_b1 :: "real list"
  v_w2 :: "real list list"
  v_b2 :: "real list"
  v_w3 :: "real list list"
  v_b3 :: "real list"
  h1 :: "real list"
  h2 :: "real list"
  output_act :: "real list"
  feat_mean :: "real list"
  feat_std :: "real list"
  num_trained_samples :: int

definition tanh_act :: "real \<Rightarrow> real" where
  "tanh_act x = tanh x"

definition sigmoid :: "real \<Rightarrow> real" where
  "sigmoid x = 1 / (1 + exp (- x))"

definition temperature_scale_probability :: "real \<Rightarrow> real \<Rightarrow> real" where
  "temperature_scale_probability prob temperature =
     (let eps = 1 / 10 ^ 12 in
      if temperature \<le> 1 then prob
      else
        let p1 = (if prob < eps then eps else prob);
            p2 = (if p1 > 1 - eps then 1 - eps else p1);
            logit = ln (p2 / (1 - p2))
        in sigmoid (logit / temperature))"

text \<open>
  \<^verbatim>\<open>he_init\<close> draws one number from \<^verbatim>\<open>rand()\<close>; the draw and \<^verbatim>\<open>RAND_MAX\<close>
  are arguments.
\<close>

definition he_init :: "int \<Rightarrow> int \<Rightarrow> nat \<Rightarrow> real" where
  "he_init rand_max r fan_in =
     (real_of_int r / real_of_int rand_max * 2 - 1) * sqrt (2 / real fan_in)"

text \<open>
  \<^verbatim>\<open>init_model\<close>: everything zeroed by \<^verbatim>\<open>memset\<close>, then the three weight
  matrices filled row by row; \<open>rs k\<close> is the result of the \<open>k\<close>-th call of
  \<^verbatim>\<open>rand()\<close>.
\<close>

definition init_model :: "int \<Rightarrow> (nat \<Rightarrow> int) \<Rightarrow> Model" where
  "init_model rand_max rs =
     \<lparr>w1 = map (\<lambda>i. map (\<lambda>j. he_init rand_max (rs (i * HIDDEN_1_SIZE + j)) INPUT_SIZE)
                 [0..<HIDDEN_1_SIZE]) [0..<INPUT_SIZE],
      b1 = replicate HIDDEN_1_SIZE 0,
      w2 = map (\<lambda>i. map (\<lambda>j. he_init rand_max
                   (rs (INPUT_SIZE * HIDDEN_1_SIZE + i * HIDDEN_2_SIZE + j)) HIDDEN_1_SIZE)
                 [0..<HIDDEN_2_SIZE]) [0..<HIDDEN_1_SIZE],
      b2 = replicate HIDDEN_2_SIZE 0,
      w3 = map (\<lambda>i. [he_init rand_max
                   (rs (INPUT_SIZE * HIDDEN_1_SIZE + HIDDEN_1_SIZE * HIDDEN_2_SIZE + i))
                   HIDDEN_2_SIZE]) [0..<HIDDEN_2_SIZE],
      b3 = replicate OUTPUT_SIZE 0,
      v_w1 = replicate INPUT_SIZE (replicate HIDDEN_1_SIZE 0),
      v_b1 = replicate HIDDEN_1_SIZE 0,
      v_w2 = replicate HIDDEN_1_SIZE (replicate HIDDEN_2_SIZE 0),
      v_b2 = replicate HIDDEN_2_SIZE 0,
      v_w3 = replicate HIDDEN_2_SIZE (replicate OUTPUT_SIZE 0),
      v_b3 = replicate OUTPUT_SIZE 0,
      h1 = replicate HIDDEN_1_SIZE 0,
      h2 = replicate HIDDEN_2_SIZE 0,
      output_act = replicate OUTPUT_SIZE 0,
      feat_mean = replicate INPUT_SIZE 0,
      feat_std = replicate INPUT_SIZE 0,
      num_trained_samples = 0\<rparr>"

text \<open>
  \<^verbatim>\<open>compute_normalization\<close>: the accumulation loops over the rows and, inside, over
  the features, on the two arrays \<^verbatim>\<open>sum\<close> and \<^verbatim>\<open>sq_sum\<close>; then mean and
  standard deviation per feature.
\<close>

definition accumulate_row :: "real list \<Rightarrow> real list \<times> real list \<Rightarrow> real list \<times> real list" where
  "accumulate_row row acc =
     fold (\<lambda>j (s, q). (s[j := s ! j + row ! j], q[j := q ! j + row ! j * row ! j]))
       [0..<INPUT_SIZE] acc"

definition feature_sums :: "real list list \<Rightarrow> nat \<Rightarrow> real list \<times> real list" where
  "feature_sums raw count =
     fold (\<lambda>i acc. accumulate_row (raw ! i) acc) [0..<count]
       (replicate INPUT_SIZE 0, replicate INPUT_SIZE 0)"

definition feature_std :: "real \<Rightarrow> real \<Rightarrow> real \<Rightarrow> real" where
  "feature_std sq_sum_j count mean_j =
     (let variance = sq_sum_j / count - mean_j * mean_j;
          s = sqrt (if variance > 0 then variance else 1 / 10 ^ 8)
      in if s < 1 / 10 ^ 8 then 1.0 else s)"

definition compute_normalization :: "real list list \<Rightarrow> nat \<Rightarrow> Model \<Rightarrow> Model" where
  "compute_normalization raw count m =
     (let acc = feature_sums raw count;
          means = map (\<lambda>j. fst acc ! j / real count) [0..<INPUT_SIZE];
          stds = map (\<lambda>j. feature_std (snd acc ! j) (real count) (means ! j)) [0..<INPUT_SIZE]
      in m\<lparr>feat_mean := means, feat_std := stds\<rparr>)"

text \<open>
  \<^verbatim>\<open>normalize_features\<close>, with the quotient of the real numbers. The C quotient by a
  stored deviation of 0 is an infinity or a NaN instead; the function is applied below
  only to models whose deviations are not 0 (those that \<^verbatim>\<open>compute_normalization\<close>
  has filled, and those that a query has checked).
\<close>

definition normalize_features :: "real list \<Rightarrow> Model \<Rightarrow> real list" where
  "normalize_features features m =
     map (\<lambda>i. (features ! i - feat_mean m ! i) / feat_std m ! i) [0..<INPUT_SIZE]"

text \<open>
  The inverse affine map \<open>x * std + mean\<close> that the round-trip property names. The
  program has no such function: this definition states the property, it embeds no code.
\<close>

definition denormalize_features :: "real list \<Rightarrow> Model \<Rightarrow> real list" where
  "denormalize_features normalized m =
     map (\<lambda>i. normalized ! i * feat_std m ! i + feat_mean m ! i) [0..<INPUT_SIZE]"

text \<open>
  \<^verbatim>\<open>forward\<close>: each neuron starts from its bias and adds the weighted inputs in
  order. The field \<open>output_act\<close> is the array \<^verbatim>\<open>output\<close> of the C struct.
\<close>

definition forward :: "Model \<Rightarrow> real list \<Rightarrow> Model" where
  "forward m inp =
     (let h1' = map (\<lambda>j. tanh_act (fold (\<lambda>i s. s + inp ! i * w1 m ! i ! j)
                     [0..<INPUT_SIZE] (b1 m ! j))) [0..<HIDDEN_1_SIZE];
          h2' = map (\<lambda>j. tanh_act (fold (\<lambda>i s. s + h1' ! i * w2 m ! i ! j)
                     [0..<HIDDEN_1_SIZE] (b2 m ! j))) [0..<HIDDEN_2_SIZE];
          out = map (\<lambda>k. sigmoid (fold (\<lambda>j s. s + h2' ! j * w3 m ! j ! k)
                     [0..<HIDDEN_2_SIZE] (b3 m ! k))) [0..<OUTPUT_SIZE]
      in m\<lparr>h1 := h1', h2 := h2', output_act := out\<rparr>)"

text \<open>One term of the cross-entropy sum of the epoch loop.\<close>

definition cross_entropy :: "real \<Rightarrow> real \<Rightarrow> real" where
  "cross_entropy pred target =
     - target * ln (pred + 1 / 10 ^ 15) - (1 - target) * ln (1 - pred + 1 / 10 ^ 15)"
subsection \<open>Long double arithmetic\<close>

text \<open>
  The functions above compute with real numbers. The program computes the network in
  \<^verbatim>\<open>long double\<close>, on x86-64 the x87 extended format: a significand of 64 bits,
  finite values up to \<^verbatim>\<open>LDBL_MAX\<close> \<open>= (2\<^sup>6\<^sup>4 - 1) * 2\<^sup>1\<^sup>6\<^sup>3\<^sup>2\<^sup>0\<close>, rounding to nearest
  with ties to even. \<open>round_ld x\<close> is the number with a 64-bit significand nearest to
  \<open>x\<close>, the exponent being unbounded; \<open>ld x\<close> is the result of one operation whose
  exact value is \<open>x\<close>: \<open>None\<close> when the rounded value is beyond \<^verbatim>\<open>LDBL_MAX\<close>, where
  the operation gives an infinity. Gradual underflow is left out (a result below
  \<open>2\<^sup>-\<^sup>1\<^sup>6\<^sup>3\<^sup>8\<^sup>2\<close> is rounded to 64 bits like any other), and \<^verbatim>\<open>expl\<close> and
  \<^verbatim>\<open>tanhl\<close> are taken to round correctly.
\<close>

definition round_even :: "real \<Rightarrow> int" where
  "round_even r =
     (let f = \<lfloor>r\<rfloor>
      in if r - of_int f < 1 / 2 then f
         else if 1 / 2 < r - of_int f then f + 1
         else if even f then f else f + 1)"

definition round_ld :: "real \<Rightarrow> real" where
  "round_ld x =
     (if x = 0 then 0
      else let u = 2 powr (of_int \<lfloor>log 2 \<bar>x\<bar>\<rfloor> - 63)
           in of_int (round_even (x / u)) * u)"

definition LDBL_MAX_EXP :: nat where
  "LDBL_MAX_EXP = 16384"

definition LDBL_MAX :: real where
  "LDBL_MAX = (2 ^ 64 - 1) * 2 ^ (LDBL_MAX_EXP - 64)"

definition ld :: "real \<Rightarrow> real option" where
  "ld x = (let r = round_ld x in if LDBL_MAX < \<bar>r\<bar> then None else Some r)"

text \<open>
  \<^verbatim>\<open>sigmoid\<close> as the program evaluates it, \<^verbatim>\<open>1.0L / (1.0L + expl(-x))\<close>: when
  \<^verbatim>\<open>expl\<close> or the sum gives \<open>+\<infinity>\<close> the quotient is 0.
\<close>

definition sigmoid_ld :: "real \<Rightarrow> real" where
  "sigmoid_ld x =
     (case ld (exp (- x)) of
        None \<Rightarrow> 0
      | Some e \<Rightarrow>
          (case ld (1 + e) of
             None \<Rightarrow> 0
           | Some d \<Rightarrow> round_ld (1 / d)))"

definition tanh_ld :: "real \<Rightarrow> real" where
  "tanh_ld x = round_ld (tanh x)"

text \<open>
  \<^verbatim>\<open>forward\<close> in this arithmetic. \<open>mac_ld\<close> is one \<^verbatim>\<open>sum += a * w\<close>, and
  \<open>neuron_ld\<close> the loop of one neuron from its bias on, followed by the activation;
  the result is \<open>None\<close> when a product or a sum gives an infinity, a run that is not
  followed further. The entries of the model and of the input are read as they are: in
  the program they are \<^verbatim>\<open>long double\<close> values already.
\<close>

definition mac_ld :: "real \<Rightarrow> real \<Rightarrow> real option \<Rightarrow> real option" where
  "mac_ld a w acc =
     (case acc of
        None \<Rightarrow> None
      | Some s \<Rightarrow> (case ld (a * w) of None \<Rightarrow> None | Some p \<Rightarrow> ld (s + p)))"

definition neuron_ld ::
  "(real \<Rightarrow> real) \<Rightarrow> real list \<Rightarrow> (nat \<Rightarrow> real) \<Rightarrow> real \<Rightarrow> nat \<Rightarrow> real option" where
  "neuron_ld act inp w b n =
     map_option act (fold (\<lambda>i acc. mac_ld (inp ! i) (w i) acc) [0..<n] (Some b))"

definition forward_ld :: "Model \<Rightarrow> real list \<Rightarrow> Model option" where
  "forward_ld m inp =
     (case those (map (\<lambda>j. neuron_ld tanh_ld inp (\<lambda>i. w1 m ! i ! j) (b1 m ! j) INPUT_SIZE)
                   [0..<HIDDEN_1_SIZE]) of
        None \<Rightarrow> None
      | Some h1' \<Rightarrow>
     (case those (map (\<lambda>j. neuron_ld tanh_ld h1' (\<lambda>i. w2 m ! i ! j) (b2 m ! j) HIDDEN_1_SIZE)
                   [0..<HIDDEN_2_SIZE]) of
        None \<Rightarrow> None
      | Some h2' \<Rightarrow>
     (case those (map (\<lambda>k. neuron_ld sigmoid_ld h2' (\<lambda>j. w3 m ! j ! k) (b3 m ! k) HIDDEN_2_SIZE)
                   [0..<OUTPUT_SIZE]) of
        None \<Rightarrow> None
      | Some out \<Rightarrow> Some (m\<lparr>h1 := h1', h2 := h2', output_act := out\<rparr>))))"

text \<open>
  What the historical mode of \<^verbatim>\<open>predict_interactive\<close> reports from a normalized
  input, \<^verbatim>\<open>prob_f1_wins = output[0]\<close> and \<^verbatim>\<open>prob_f2_wins = 1.0L - prob_f1_wins\<close>;
  and the two arguments of \<^verbatim>\<open>logl\<close> in the cross-entropy term of \<^verbatim>\<open>train\<close>,
  \<^verbatim>\<open>pred + 1e-15L\<close> and \<^verbatim>\<open>1.0L - pred + 1e-15L\<close>.
\<close>

definition historical_report_ld :: "Model \<Rightarrow> real list \<Rightarrow> (real \<times> real) option" where
  "historical_report_ld m normalized =
     (case forward_ld m normalized of
        None \<Rightarrow> None
      | Some m' \<Rightarrow> Some (output_act m' ! 0, round_ld (1 - output_act m' ! 0)))"

definition cross_entropy_arguments_ld :: "real \<Rightarrow> real \<times> real" where
  "cross_entropy_arguments_ld pred =
     (round_ld (pred + round_ld (1 / 10 ^ 15)),
      round_ld (round_ld (1 - pred) + round_ld (1 / 10 ^ 15)))"


subsection \<open>The trainer: mirrored augmentation and data preparation\<close>

text \<open>
  The augmentation loop of \<^verbatim>\<open>train\<close>: iteration \<open>i\<close> writes row \<open>i\<close> and row
  \<open>i + train_base_count\<close> of the two freshly allocated arrays.
\<close>

definition mirror_step ::
  "real list list \<Rightarrow> real list \<Rightarrow> nat \<Rightarrow> nat \<Rightarrow> real list list \<times> real list
     \<Rightarrow> real list list \<times> real list" where
  "mirror_step raw_features labels tbc i bufs =
     (((fst bufs)[i := map (\<lambda>j. raw_features ! i ! j) [0..<INPUT_SIZE]])
         [i + tbc := map (\<lambda>j. - (raw_features ! i ! j)) [0..<INPUT_SIZE]],
      ((snd bufs)[i := labels ! i])[i + tbc := 1 - labels ! i])"

definition mirror_augment ::
  "real list list \<Rightarrow> real list \<Rightarrow> nat \<Rightarrow> real list list \<times> real list
     \<Rightarrow> real list list \<times> real list" where
  "mirror_augment raw_features labels tbc bufs =
     fold (mirror_step raw_features labels tbc) [0..<tbc] bufs"

text \<open>
  What \<^verbatim>\<open>malloc\<close> answers during one run of \<^verbatim>\<open>train\<close>: whether each request
  succeeds and, for the two augmented arrays, the indeterminate content they start with
  (\<open>None\<close> when one of the two requests fails).
\<close>

record Mallocs =
  raw_features_ok :: bool
  labels_ok :: bool
  aug_garbage :: "((nat \<Rightarrow> real list) \<times> (nat \<Rightarrow> real)) option"
  data_ok :: bool
  val_ok :: bool

record TrainSet =
  ts_train_base_count :: nat
  ts_raw_features :: "real list list"
  ts_labels :: "real list"
  ts_aug_raw :: "real list list"
  ts_aug_labels :: "real list"
  ts_model :: Model
  ts_data :: "real list list"
  ts_val_data :: "real list list"
  ts_val_labels :: "real list"

text \<open>
  \<^verbatim>\<open>train\<close> up to the start of the epoch loop. \<open>Inr None\<close> is one of the early
  returns (the empty validation split, a failed allocation; a negative sample count
  makes the size of the augmented arrays wrap around, which no allocation satisfies).
\<close>

definition train_prepare ::
  "allocator \<Rightarrow> Mallocs \<Rightarrow> Model \<Rightarrow> UFCFight list \<Rightarrow> error + TrainSet option" where
  "train_prepare al ma m fights =
     (let sorted = qsort_fights fights;
          num_samples = int (length fights);
          tbc = train_base_count num_samples;
          val_count = num_samples - tbc
      in
      if val_count < 1 then Inr None
      else if \<not> raw_features_ok ma then Inr None
      else if \<not> labels_ok ma then Inr None
      else
        bind_err (feature_loop al tbc 0 init_context sorted) (\<lambda>rows.
          let raw = map fst rows; labels = map snd rows in
          if tbc < 0 then Inr None
          else
            case aug_garbage ma of
              None \<Rightarrow> Inr None
            | Some g \<Rightarrow>
                let augmented_samples = nat tbc * 2;
                    aug = mirror_augment raw labels (nat tbc)
                            (map (fst g) [0..<augmented_samples],
                             map (snd g) [0..<augmented_samples]);
                    m' = compute_normalization (fst aug) augmented_samples m
                in
                if \<not> data_ok ma then Inr None
                else if \<not> val_ok ma then Inr None
                else
                  Inr (Some
                    \<lparr>ts_train_base_count = nat tbc,
                     ts_raw_features = raw,
                     ts_labels = labels,
                     ts_aug_raw = fst aug,
                     ts_aug_labels = snd aug,
                     ts_model = m',
                     ts_data = map (\<lambda>i. normalize_features (fst aug ! i) m')
                                 [0..<augmented_samples],
                     ts_val_data = map (\<lambda>i. normalize_features (raw ! (nat tbc + i)) m')
                                     [0..<nat val_count],
                     ts_val_labels = map (\<lambda>i. labels ! (nat tbc + i)) [0..<nat val_count]\<rparr>)))"

subsection \<open>The trainer: early stopping\<close>

abbreviation (input) max_epochs :: nat where "max_epochs \<equiv> 500"
abbreviation (input) patience :: nat where "patience \<equiv> 50"

datatype loop_exit = Early_Stop | Max_Epochs | Cancelled

text \<open>
  The control of the epoch loop. The validation accuracy that epoch \<open>e\<close> measures is
  \<open>val_acc e\<close>, and \<open>keep e\<close> is the value of \<^verbatim>\<open>keep_running\<close> read at the head of
  epoch \<open>e\<close>. The result is how the loop ends, the value of \<^verbatim>\<open>epoch\<close> then (at a
  \<^verbatim>\<open>break\<close>: the index of the epoch just completed) and \<^verbatim>\<open>best_val_acc\<close>.
\<close>

function epoch_loop ::
  "(nat \<Rightarrow> real) \<Rightarrow> (nat \<Rightarrow> bool) \<Rightarrow> nat \<Rightarrow> real \<Rightarrow> nat \<Rightarrow> loop_exit \<times> nat \<times> real" where
  "epoch_loop val_acc keep epoch best_val_acc no_improve =
     (if \<not> epoch < max_epochs then (Max_Epochs, epoch, best_val_acc)
      else if \<not> keep epoch then (Cancelled, epoch, best_val_acc)
      else if val_acc epoch > best_val_acc
        then epoch_loop val_acc keep (Suc epoch) (val_acc epoch) 0
      else if Suc no_improve \<ge> patience then (Early_Stop, epoch, best_val_acc)
      else epoch_loop val_acc keep (Suc epoch) best_val_acc (Suc no_improve))"
  by pat_completeness auto
termination
  by (relation "measure (\<lambda>(val_acc, keep, epoch, best_val_acc, no_improve). max_epochs - epoch)")
     auto

declare epoch_loop.simps [simp del]

definition train_epochs :: "(nat \<Rightarrow> real) \<Rightarrow> (nat \<Rightarrow> bool) \<Rightarrow> loop_exit \<times> nat \<times> real" where
  "train_epochs val_acc keep = epoch_loop val_acc keep 0 0 0"

text \<open>
  The values of \<^verbatim>\<open>best_val_acc\<close> and \<^verbatim>\<open>no_improve\<close> when the loop arrives at the
  head of epoch \<open>e\<close>; \<open>None\<close> when it has ended before.
\<close>

fun epoch_head :: "(nat \<Rightarrow> real) \<Rightarrow> (nat \<Rightarrow> bool) \<Rightarrow> nat \<Rightarrow> (real \<times> nat) option" where
  "epoch_head val_acc keep 0 = Some (0, 0)"
| "epoch_head val_acc keep (Suc e) =
     (case epoch_head val_acc keep e of
        None \<Rightarrow> None
      | Some (best_val_acc, no_improve) \<Rightarrow>
          if \<not> e < max_epochs then None
          else if \<not> keep e then None
          else if val_acc e > best_val_acc then Some (val_acc e, 0)
          else if Suc no_improve \<ge> patience then None
          else Some (best_val_acc, Suc no_improve))"

subsection \<open>The evaluator: threshold search\<close>






subsection \<open>Persistence\<close>








subsection \<open>The inference path of predict\_interactive\<close>

definition fighter_stats_identical :: "UFCFight \<Rightarrow> real \<Rightarrow> bool" where
  "fighter_stats_identical fight eps \<longleftrightarrow>
     \<bar>f1_height fight - f2_height fight\<bar> \<le> eps \<and>
     \<bar>f1_reach fight - f2_reach fight\<bar> \<le> eps \<and>
     \<bar>f1_age fight - f2_age fight\<bar> \<le> eps \<and>
     \<bar>f1_sig_strikes_pm fight - f2_sig_strikes_pm fight\<bar> \<le> eps \<and>
     \<bar>f1_sig_strikes_acc fight - f2_sig_strikes_acc fight\<bar> \<le> eps \<and>
     \<bar>f1_sig_strikes_abs fight - f2_sig_strikes_abs fight\<bar> \<le> eps \<and>
     \<bar>f1_sig_strikes_def fight - f2_sig_strikes_def fight\<bar> \<le> eps \<and>
     \<bar>f1_takedown_avg fight - f2_takedown_avg fight\<bar> \<le> eps \<and>
     \<bar>f1_takedown_acc fight - f2_takedown_acc fight\<bar> \<le> eps \<and>
     \<bar>f1_takedown_def fight - f2_takedown_def fight\<bar> \<le> eps \<and>
     \<bar>f1_sub_avg fight - f2_sub_avg fight\<bar> \<le> eps \<and>
     \<bar>f1_weight fight - f2_weight fight\<bar> \<le> eps"

text \<open>The five in-place multiplications of the future-fight mode.\<close>

definition damp_context_features :: "real list \<Rightarrow> real list" where
  "damp_context_features features =
     (let context_scale = 0.20; h2h_scale = 0.05;
          a = features[FEAT_WIN_RATE_DELTA := features ! FEAT_WIN_RATE_DELTA * context_scale];
          b = a[FEAT_TOTAL_WINS_DELTA := a ! FEAT_TOTAL_WINS_DELTA * context_scale];
          c = b[FEAT_TOTAL_FIGHTS_DELTA := b ! FEAT_TOTAL_FIGHTS_DELTA * context_scale];
          d = c[FEAT_WEIGHTED_SCORE_DELTA := c ! FEAT_WEIGHTED_SCORE_DELTA * context_scale]
      in d[FEAT_H2H_DELTA := d ! FEAT_H2H_DELTA * h2h_scale])"

text \<open>
  \<^verbatim>\<open>normalize_features\<close> divides by the stored deviations. Where one of them is 0
  the C quotient \<^verbatim>\<open>(features[i] - mean) / 0.0\<close> is an infinity or a NaN, which the
  real numbers do not have: such a query ends as \<open>Non_Finite_Input\<close>, and what the
  program computes from the non-finite input on is not described.
\<close>

datatype prediction =
  Identical_Stats
  | Non_Finite_Input "real list"
  | Probabilities "real list" real real

text \<open>
  One query of \<^verbatim>\<open>predict_interactive\<close>, from the identical-statistics check to the
  two reported probabilities; \<open>future_mode\<close> is whether the C flag is nonzero. The
  arguments of \<open>Probabilities\<close> are the array \<^verbatim>\<open>features\<close> as printed, then
  \<^verbatim>\<open>prob_f1_wins\<close> and \<^verbatim>\<open>prob_f2_wins\<close>.
\<close>

definition predict_query ::
  "allocator \<Rightarrow> bool \<Rightarrow> Model \<Rightarrow> MatchContext \<Rightarrow> UFCFight \<Rightarrow> error + (prediction \<times> MatchContext)" where
  "predict_query al future_mode active_model pred_ctx fight =
     (if fighter_stats_identical fight (1 / 10 ^ 12) then Inr (Identical_Stats, pred_ctx)
      else
        bind_err (compute_features_with al fight pred_ctx) (\<lambda>(features0, c).
          let features = (if future_mode then damp_context_features features0 else features0)
          in if list_ex (\<lambda>i. feat_std active_model ! i = 0) [0..<INPUT_SIZE]
             then Inr (Non_Finite_Input features, c)
             else
               let normalized = normalize_features features active_model;
                   m' = forward active_model normalized;
                   p = output_act m' ! 0;
                   prob_f1 = (if future_mode then temperature_scale_probability p 4.0 else p);
                   prob_f2 = 1.0 - prob_f1
               in Inr (Probabilities features prob_f1 prob_f2, c)))"

subsection \<open>Notions used to state the properties\<close>

text \<open>
  The definitions of this subsection embed no code: they name what the properties
  speak about.
\<close>

definition fr_key :: "FighterRecord \<Rightarrow> string \<times> string" where
  "fr_key r = (name r, fr_weight_class r)"

text \<open>
  The number of sides of observations on which a fighter stands in a weight class, and
  the number of observations that involve the fighter. The two differ only when an
  observation names the same fighter on both sides.
\<close>

definition appearances :: "UFCFight list \<Rightarrow> string \<Rightarrow> string \<Rightarrow> nat" where
  "appearances fs n w =
     length (filter (\<lambda>f. fighter1 f = n \<and> weight_class f = w) fs) +
     length (filter (\<lambda>f. fighter2 f = n \<and> weight_class f = w) fs)"

definition observations_involving :: "UFCFight list \<Rightarrow> string \<Rightarrow> string \<Rightarrow> nat" where
  "observations_involving fs n w =
     length (filter (\<lambda>f. (fighter1 f = n \<or> fighter2 f = n) \<and> weight_class f = w) fs)"

text \<open>
  The name fields of \<^verbatim>\<open>UFCFight\<close> are arrays of 64 bytes, so a stored string has at
  most 63 bytes.
\<close>

definition fight_fits :: "UFCFight \<Rightarrow> bool" where
  "fight_fits f \<longleftrightarrow>
     length (fighter1 f) \<le> 63 \<and> length (fighter2 f) \<le> 63 \<and> length (weight_class f) \<le> 63"

definition resolved :: "UFCFight \<Rightarrow> bool" where
  "resolved f \<longleftrightarrow> label f = 0 \<or> label f = 1"

definition never_fails :: "allocator \<Rightarrow> bool" where
  "never_fails al \<longleftrightarrow> (\<forall>a n. al a n \<noteq> Realloc_Failed)"

text \<open>
  The predicate on a context and the observations recorded in it so far: one record per
  key, every record counts the sides its fighter stood on and has as many wins and losses
  as fights, and every fighter recorded has a record.
\<close>

definition context_inv :: "MatchContext \<Rightarrow> UFCFight list \<Rightarrow> bool" where
  "context_inv ctx hs \<longleftrightarrow>
     distinct (map fr_key (fighters ctx)) \<and>
     (\<forall>r \<in> set (fighters ctx).
        total r = int (appearances hs (name r) (fr_weight_class r)) \<and>
        wins r + losses r = total r) \<and>
     (\<forall>f \<in> set hs.
        (fighter1 f, weight_class f) \<in> fr_key ` set (fighters ctx) \<and>
        (fighter2 f, weight_class f) \<in> fr_key ` set (fighters ctx))"

definition upd_rec ::
  "string \<times> string \<Rightarrow> (FighterRecord \<Rightarrow> FighterRecord) \<Rightarrow> FighterRecord \<Rightarrow> FighterRecord" where
  "upd_rec k g r = (if fr_key r = k then g r else r)"

definition bump ::
  "string \<times> string \<Rightarrow> (FighterRecord \<Rightarrow> FighterRecord) \<Rightarrow> FighterRecord list
     \<Rightarrow> FighterRecord list" where
  "bump k g rs = map (upd_rec k g) rs"

text \<open>Two datasets that differ at most in the outcome labels of their observations.\<close>

definition same_but_labels :: "UFCFight list \<Rightarrow> UFCFight list \<Rightarrow> bool" where
  "same_but_labels fs gs = list_all2 (\<lambda>f g. g = f\<lparr>label := label g\<rparr>) fs gs"

text \<open>The two hidden layers that \<^verbatim>\<open>forward\<close> computes, named for the proofs.\<close>

definition hidden1 :: "Model \<Rightarrow> real list \<Rightarrow> real list" where
  "hidden1 m inp = map (\<lambda>j. tanh_act (fold (\<lambda>i s. s + inp ! i * w1 m ! i ! j)
                     [0..<INPUT_SIZE] (b1 m ! j))) [0..<HIDDEN_1_SIZE]"

definition hidden2 :: "Model \<Rightarrow> real list \<Rightarrow> real list" where
  "hidden2 m a = map (\<lambda>j. tanh_act (fold (\<lambda>i s. s + a ! i * w2 m ! i ! j)
                     [0..<HIDDEN_1_SIZE] (b2 m ! j))) [0..<HIDDEN_2_SIZE]"


text \<open>
  The inputs, weights and biases that \<^verbatim>\<open>forward\<close> reads are at most \<open>W\<close> in
  absolute value.
\<close>

definition magnitudes_below :: "real \<Rightarrow> Model \<Rightarrow> real list \<Rightarrow> bool" where
  "magnitudes_below W m inp \<longleftrightarrow>
     (\<forall>i < INPUT_SIZE. \<bar>inp ! i\<bar> \<le> W \<and> (\<forall>j < HIDDEN_1_SIZE. \<bar>w1 m ! i ! j\<bar> \<le> W)) \<and>
     (\<forall>j < HIDDEN_1_SIZE. \<bar>b1 m ! j\<bar> \<le> W \<and> (\<forall>k < HIDDEN_2_SIZE. \<bar>w2 m ! j ! k\<bar> \<le> W)) \<and>
     (\<forall>k < HIDDEN_2_SIZE. \<bar>b2 m ! k\<bar> \<le> W \<and> \<bar>w3 m ! k ! 0\<bar> \<le> W) \<and>
     \<bar>b3 m ! 0\<bar> \<le> W"

subsection \<open>Concrete data\<close>

text \<open>An allocator that always grows the block where it is, and observations to run on.\<close>

definition in_place :: allocator where
  "in_place a n = Realloc_In_Place"

definition example_fight :: "string \<Rightarrow> string \<Rightarrow> string \<Rightarrow> string \<Rightarrow> int \<Rightarrow> UFCFight" where
  "example_fight d w a b l =
     \<lparr>event_date = d, weight_class = w, fighter1 = a, fighter2 = b,
      f1_height = 180, f1_reach = 183, f1_age = 30, f1_sig_strikes_pm = 4,
      f1_sig_strikes_acc = 0.5, f1_sig_strikes_abs = 3, f1_sig_strikes_def = 0.5,
      f1_takedown_avg = 2, f1_takedown_acc = 0.5, f1_takedown_def = 0.5,
      f1_sub_avg = 1, f1_weight = 155,
      f2_height = 175, f2_reach = 178, f2_age = 28, f2_sig_strikes_pm = 3,
      f2_sig_strikes_acc = 0.5, f2_sig_strikes_abs = 4, f2_sig_strikes_def = 0.5,
      f2_takedown_avg = 1, f2_takedown_acc = 0.5, f2_takedown_def = 0.5,
      f2_sub_avg = 0, f2_weight = 155,
      label = l\<rparr>"

definition rematch :: "UFCFight list" where
  "rematch =
     [example_fight ''2020-01-11'' ''Lightweight'' ''Ann'' ''Bea'' 1,
      example_fight ''2021-03-20'' ''Lightweight'' ''Bea'' ''Ann'' 0]"

definition rematch_context :: MatchContext where
  "rematch_context =
     \<lparr>fighters =
        [\<lparr>name = ''Ann'', fr_weight_class = ''Lightweight'', wins = 2, losses = 0, total = 2\<rparr>,
         \<lparr>name = ''Bea'', fr_weight_class = ''Lightweight'', wins = 0, losses = 2, total = 2\<rparr>],
      fighter_cap = 128, fighters_addr = 0,
      h2h =
        [\<lparr>name_a = ''Ann'', name_b = ''Bea'', h2h_weight_class = ''Lightweight'',
          wins_a = 2, wins_b = 0, h2h_total = 2\<rparr>],
      h2h_cap = 128, h2h_addr = 0\<rparr>"

definition self_fight :: UFCFight where
  "self_fight = example_fight ''2020-01-11'' ''Lightweight'' ''Ann'' ''Ann'' 1"

text \<open>
  Twelve observations in date order. The ninth and the tenth (indices 8 and 9) share a
  fighter; the boundary of the first ten alone is 8, the boundary of all twelve is 9.
\<close>

definition leak_dataset :: "UFCFight list" where
  "leak_dataset =
     [example_fight ''2001-05-04'' ''Lightweight'' ''Cat'' ''Dee'' 1,
      example_fight ''2002-05-04'' ''Lightweight'' ''Cat'' ''Dee'' 0,
      example_fight ''2003-05-04'' ''Lightweight'' ''Cat'' ''Dee'' 1,
      example_fight ''2004-05-04'' ''Lightweight'' ''Cat'' ''Dee'' 0,
      example_fight ''2005-05-04'' ''Lightweight'' ''Cat'' ''Dee'' 1,
      example_fight ''2006-05-04'' ''Lightweight'' ''Cat'' ''Dee'' 0,
      example_fight ''2007-05-04'' ''Lightweight'' ''Cat'' ''Dee'' 1,
      example_fight ''2008-05-04'' ''Lightweight'' ''Cat'' ''Dee'' 0,
      example_fight ''2009-05-04'' ''Lightweight'' ''Ann'' ''Bea'' 1,
      example_fight ''2010-05-04'' ''Lightweight'' ''Ann'' ''Eve'' 1,
      example_fight ''2011-05-04'' ''Lightweight'' ''Cat'' ''Dee'' 1,
      example_fight ''2012-05-04'' ''Lightweight'' ''Cat'' ''Dee'' 0]"

text \<open>The rows of the feature loop on \<open>rematch\<close>, and \<open>rematch\<close> with another last label.\<close>

definition rematch_rows :: "(real list \<times> real) list" where
  "rematch_rows =
     [(feature_vector (example_fight ''2020-01-11'' ''Lightweight'' ''Ann'' ''Bea'' 1)
         (Some \<lparr>name = ''Ann'', fr_weight_class = ''Lightweight'',
                wins = 0, losses = 0, total = 0\<rparr>)
         (Some \<lparr>name = ''Bea'', fr_weight_class = ''Lightweight'',
                wins = 0, losses = 0, total = 0\<rparr>)
         (Some \<lparr>name_a = ''Ann'', name_b = ''Bea'', h2h_weight_class = ''Lightweight'',
                wins_a = 0, wins_b = 0, h2h_total = 0\<rparr>), 1),
      (feature_vector (example_fight ''2021-03-20'' ''Lightweight'' ''Bea'' ''Ann'' 0)
         (Some \<lparr>name = ''Bea'', fr_weight_class = ''Lightweight'',
                wins = 0, losses = 1, total = 1\<rparr>)
         (Some \<lparr>name = ''Ann'', fr_weight_class = ''Lightweight'',
                wins = 1, losses = 0, total = 1\<rparr>)
         (Some \<lparr>name_a = ''Ann'', name_b = ''Bea'', h2h_weight_class = ''Lightweight'',
                wins_a = 1, wins_b = 0, h2h_total = 1\<rparr>), 0)]"

definition rematch_relabelled :: "UFCFight list" where
  "rematch_relabelled =
     [example_fight ''2020-01-11'' ''Lightweight'' ''Ann'' ''Bea'' 1,
      example_fight ''2021-03-20'' ''Lightweight'' ''Bea'' ''Ann'' 1]"

definition rematch_relabelled_rows :: "(real list \<times> real) list" where
  "rematch_relabelled_rows =
     [rematch_rows ! 0,
      (feature_vector (example_fight ''2021-03-20'' ''Lightweight'' ''Bea'' ''Ann'' 1)
         (Some \<lparr>name = ''Bea'', fr_weight_class = ''Lightweight'',
                wins = 0, losses = 1, total = 1\<rparr>)
         (Some \<lparr>name = ''Ann'', fr_weight_class = ''Lightweight'',
                wins = 1, losses = 0, total = 1\<rparr>)
         (Some \<lparr>name_a = ''Ann'', name_b = ''Bea'', h2h_weight_class = ''Lightweight'',
                wins_a = 1, wins_b = 0, h2h_total = 1\<rparr>), 1)]"

text \<open>A run of \<^verbatim>\<open>malloc\<close> in which every request succeeds, and a fresh model.\<close>

definition all_granted :: Mallocs where
  "all_granted =
     \<lparr>raw_features_ok = True, labels_ok = True,
      aug_garbage = Some (\<lambda>k. [], \<lambda>k. 0),
      data_ok = True, val_ok = True\<rparr>"

definition fresh_model :: Model where
  "fresh_model = init_model 2147483647 (\<lambda>k. int k)"

text \<open>A query for \<^verbatim>\<open>predict_interactive\<close>.\<close>

definition example_query :: UFCFight where
  "example_query = example_fight ''2022-06-11'' ''Lightweight'' ''Ann'' ''Bea'' 0"

text \<open>A validation-accuracy sequence whose best epoch is epoch 3, and no cancellation.\<close>

definition peak_at_3 :: "nat \<Rightarrow> real" where
  "peak_at_3 e = (if e = 3 then 0.75 else 0.5)"

definition never_cancelled :: "nat \<Rightarrow> bool" where
  "never_cancelled e = True"


text \<open>
  A model that reads the prior win-rate difference alone: one path of weight 1 from
  feature 14 through the first neuron of each hidden layer to the output, every other
  weight and every bias 0, the stored means 0 and the stored deviations 2.
\<close>

definition context_model :: Model where
  "context_model =
     \<lparr>w1 = map (\<lambda>i. map (\<lambda>j. if i = FEAT_WIN_RATE_DELTA \<and> j = 0 then 1 else 0)
                 [0..<HIDDEN_1_SIZE]) [0..<INPUT_SIZE],
      b1 = replicate HIDDEN_1_SIZE 0,
      w2 = map (\<lambda>i. map (\<lambda>j. if i = 0 \<and> j = 0 then 1 else 0) [0..<HIDDEN_2_SIZE])
             [0..<HIDDEN_1_SIZE],
      b2 = replicate HIDDEN_2_SIZE 0,
      w3 = map (\<lambda>j. [if j = 0 then 1 else 0]) [0..<HIDDEN_2_SIZE],
      b3 = replicate OUTPUT_SIZE 0,
      v_w1 = replicate INPUT_SIZE (replicate HIDDEN_1_SIZE 0),
      v_b1 = replicate HIDDEN_1_SIZE 0,
      v_w2 = replicate HIDDEN_1_SIZE (replicate HIDDEN_2_SIZE 0),
      v_b2 = replicate HIDDEN_2_SIZE 0,
      v_w3 = replicate HIDDEN_2_SIZE (replicate OUTPUT_SIZE 0),
      v_b3 = replicate OUTPUT_SIZE 0,
      h1 = replicate HIDDEN_1_SIZE 0,
      h2 = replicate HIDDEN_2_SIZE 0,
      output_act = replicate OUTPUT_SIZE 0,
      feat_mean = replicate INPUT_SIZE 0,
      feat_std = replicate INPUT_SIZE 2,
      num_trained_samples = 0\<rparr>"

text \<open>A model whose output neuron has the bias 50 and no incoming weight.\<close>

definition saturated_model :: Model where
  "saturated_model =
     \<lparr>w1 = replicate INPUT_SIZE (replicate HIDDEN_1_SIZE 0),
      b1 = replicate HIDDEN_1_SIZE 0,
      w2 = replicate HIDDEN_1_SIZE (replicate HIDDEN_2_SIZE 0),
      b2 = replicate HIDDEN_2_SIZE 0,
      w3 = replicate HIDDEN_2_SIZE (replicate OUTPUT_SIZE 0),
      b3 = [50],
      v_w1 = replicate INPUT_SIZE (replicate HIDDEN_1_SIZE 0),
      v_b1 = replicate HIDDEN_1_SIZE 0,
      v_w2 = replicate HIDDEN_1_SIZE (replicate HIDDEN_2_SIZE 0),
      v_b2 = replicate HIDDEN_2_SIZE 0,
      v_w3 = replicate HIDDEN_2_SIZE (replicate OUTPUT_SIZE 0),
      v_b3 = replicate OUTPUT_SIZE 0,
      h1 = replicate HIDDEN_1_SIZE 0,
      h2 = replicate HIDDEN_2_SIZE 0,
      output_act = replicate OUTPUT_SIZE 0,
      feat_mean = replicate INPUT_SIZE 0,
      feat_std = replicate INPUT_SIZE 1,
      num_trained_samples = 0\<rparr>"

section \<open>Properties\<close>

subsection \<open>Basic facts\<close>

lemma strcmp_eq_0_iff [simp]: "strcmp a b = 0 \<longleftrightarrow> a = b"
  by (induction a b rule: strcmp.induct) auto

lemma bind_err_Inr:
  "bind_err m k = Inr y \<longleftrightarrow> (\<exists>x. m = Inr x \<and> k x = Inr y)"
  by (cases m) (auto simp: bind_err_def)

lemma example_fight_sel [simp]:
  "event_date (example_fight d w a b l) = d"
  "weight_class (example_fight d w a b l) = w"
  "fighter1 (example_fight d w a b l) = a"
  "fighter2 (example_fight d w a b l) = b"
  "label (example_fight d w a b l) = l"
  by (simp_all add: example_fight_def)

lemmas ctx_eval = update_context_with_result_def get_or_add_fighter_def get_or_add_h2h_def
  ensure_fighter_cap_def ensure_h2h_cap_def modify_fighter_def modify_h2h_def read_h2h_def
  read_fighter_def bind_err_def strncpy63_def init_context_def in_place_def Let_def

subsection \<open>The context tracker counts appearances\<close>

lemma fighter_index_Some:
  "fighter_index rs n w = Some i \<Longrightarrow> i < length rs \<and> fr_key (rs ! i) = (n, w)"
  by (induction rs arbitrary: i) (auto simp: fr_key_def split: if_splits)

lemma fighter_index_None:
  "fighter_index rs n w = None \<longleftrightarrow> (n, w) \<notin> fr_key ` set rs"
  by (induction rs) (auto simp: fr_key_def)

lemma bump_upd_rec: "bump k g rs = map (upd_rec k g) rs"
  by (simp add: bump_def)

lemma list_update_bump:
  assumes "distinct (map fr_key rs)" "i < length rs" "fr_key (rs ! i) = k"
  shows "rs[i := g (rs ! i)] = bump k g rs"
proof (rule nth_equalityI)
  show "length (rs[i := g (rs ! i)]) = length (bump k g rs)" by (simp add: bump_def)
next
  fix j assume j: "j < length (rs[i := g (rs ! i)])"
  show "rs[i := g (rs ! i)] ! j = bump k g rs ! j"
  proof (cases "j = i")
    case True
    with assms show ?thesis by (simp add: bump_def upd_rec_def)
  next
    case False
    from j have jl: "j < length rs" by simp
    have "fr_key (rs ! j) \<noteq> fr_key (rs ! i)"
      using assms(1,2) jl False by (auto simp: distinct_conv_nth)
    with assms jl False show ?thesis by (simp add: bump_def upd_rec_def)
  qed
qed

lemma keys_bump: "(\<And>r. fr_key (g r) = fr_key r) \<Longrightarrow> map fr_key (bump k g rs) = map fr_key rs"
  by (simp add: bump_def upd_rec_def)

lemma modify_fighter_Inr:
  assumes "modify_fighter p g c = Inr c'"
  shows "fighters c' = (fighters c)[snd p := g (fighters c ! snd p)]"
    and "fighters_addr c' = fighters_addr c" and "fst p = fighters_addr c"
    and "snd p < length (fighters c)"
  using assms by (auto simp: modify_fighter_def split: if_splits)

lemma modify_h2h_Inr:
  assumes "modify_h2h p g c = Inr c'"
  shows "fighters c' = fighters c" and "fighters_addr c' = fighters_addr c"
  using assms by (auto simp: modify_h2h_def split: if_splits)

lemma modify_fighter_bump:
  assumes "modify_fighter p g c = Inr c'" "distinct (map fr_key (fighters c))"
    "fr_key (fighters c ! snd p) = k"
  shows "fighters c' = bump k g (fighters c)"
  using modify_fighter_Inr[OF assms(1)] list_update_bump[OF assms(2) _ assms(3)] by simp

lemma appearances_Nil [simp]: "appearances [] n w = 0"
  by (simp add: appearances_def)

lemma appearances_snoc:
  "appearances (hs @ [f]) n w =
     appearances hs n w + (if fighter1 f = n \<and> weight_class f = w then 1 else 0)
       + (if fighter2 f = n \<and> weight_class f = w then 1 else 0)"
  by (simp add: appearances_def)

lemma appearances_zero:
  assumes "\<forall>f \<in> set hs. (fighter1 f, weight_class f) \<in> K \<and> (fighter2 f, weight_class f) \<in> K"
    and "(n, w) \<notin> K"
  shows "appearances hs n w = 0"
  using assms by (auto simp: appearances_def filter_empty_conv)

lemma get_or_add_fighter_extends:
  "get_or_add_fighter al c n w = (r, c') \<Longrightarrow> \<exists>ext. fighters c' = fighters c @ ext"
  by (auto simp: get_or_add_fighter_def ensure_fighter_cap_def Let_def
      split: option.splits if_splits realloc_outcome.splits)

lemma get_or_add_fighter_ptr:
  assumes "get_or_add_fighter al c n w = (Some p, c')" "length n \<le> 63" "length w \<le> 63"
  shows "snd p < length (fighters c') \<and> fr_key (fighters c' ! snd p) = (n, w)"
  using assms
  by (auto simp: get_or_add_fighter_def ensure_fighter_cap_def Let_def strncpy63_def fr_key_def
      nth_append dest!: fighter_index_Some
      split: option.splits if_splits realloc_outcome.splits)

lemma get_or_add_fighter_never_null:
  assumes "never_fails al"
  shows "fst (get_or_add_fighter al c n w) \<noteq> None"
  using assms
  by (auto simp: get_or_add_fighter_def ensure_fighter_cap_def Let_def never_fails_def
      split: option.splits if_splits realloc_outcome.splits)

lemma get_or_add_fighter_inv:
  assumes "context_inv c hs" "get_or_add_fighter al c n w = (r, c')"
    "length n \<le> 63" "length w \<le> 63"
  shows "context_inv c' hs"
proof (cases "fighter_index (fighters c) n w")
  case (Some i)
  with assms show ?thesis by (simp add: get_or_add_fighter_def)
next
  case None
  hence new: "(n, w) \<notin> fr_key ` set (fighters c)" by (simp add: fighter_index_None)
  have z: "appearances hs n w = 0"
    using appearances_zero[OF _ new] assms(1) by (simp add: context_inv_def)
  show ?thesis
  proof (cases "ensure_fighter_cap al c")
    case None
    with \<open>fighter_index (fighters c) n w = None\<close> assms show ?thesis
      by (simp add: get_or_add_fighter_def)
  next
    case (Some d)
    hence fd: "fighters d = fighters c"
      by (auto simp: ensure_fighter_cap_def Let_def split: if_splits realloc_outcome.splits)
    have "fighters c' = fighters c @
        [\<lparr>name = n, fr_weight_class = w, wins = 0, losses = 0, total = 0\<rparr>]"
      using Some \<open>fighter_index (fighters c) n w = None\<close> assms(2,3,4) fd
      by (auto simp: get_or_add_fighter_def strncpy63_def)
    with assms(1) new z show ?thesis
      by (auto simp: context_inv_def fr_key_def)
  qed
qed

lemma get_or_add_h2h_fighters:
  "get_or_add_h2h al c a b w = (r, c') \<Longrightarrow> fighters c' = fighters c"
  by (auto simp: get_or_add_h2h_def ensure_h2h_cap_def Let_def
      split: option.splits if_splits realloc_outcome.splits)

lemma get_or_add_h2h_never_null:
  assumes "never_fails al"
  shows "fst (get_or_add_h2h al c a b w) \<noteq> None"
  using assms
  by (auto simp: get_or_add_h2h_def ensure_h2h_cap_def Let_def never_fails_def
      split: option.splits if_splits realloc_outcome.splits)

lemma modify_fighter_step:
  assumes "modify_fighter p g c = Inr c'" "map fr_key (fighters c) = KS" "distinct KS"
    "KS ! snd p = k" "\<And>r. fr_key (g r) = fr_key r"
  shows "fighters c' = bump k g (fighters c) \<and> map fr_key (fighters c') = KS"
proof -
  note m = modify_fighter_Inr[OF assms(1)]
  have "fr_key (fighters c ! snd p) = k"
    using assms(2,4) m(4) by (metis nth_map)
  hence "fighters c' = bump k g (fighters c)"
    using modify_fighter_bump[OF assms(1)] assms(2,3) by simp
  thus ?thesis using assms(2,5) by (simp add: keys_bump)
qed

lemma modify_h2h_step:
  assumes "modify_h2h p g c = Inr c'"
  shows "fighters c' = fighters c"
  using assms by (rule modify_h2h_Inr)

lemma update_context_fighters:
  assumes inv: "context_inv ctx hs" and fits: "fight_fits f"
    and nf: "never_fails al"
    and upd: "update_context_with_result al ctx f = Inr ctx'"
  shows "\<exists>F. context_inv (ctx\<lparr>fighters := F\<rparr>) hs \<and>
           (fighter1 f, weight_class f) \<in> fr_key ` set F \<and>
           (fighter2 f, weight_class f) \<in> fr_key ` set F \<and>
           fighters ctx' =
             (if label f = 1 then
                bump (fighter2 f, weight_class f) (\<lambda>r. r\<lparr>losses := losses r + 1\<rparr>)
                 (bump (fighter1 f, weight_class f) (\<lambda>r. r\<lparr>wins := wins r + 1\<rparr>)
                   (bump (fighter2 f, weight_class f) (\<lambda>r. r\<lparr>total := total r + 1\<rparr>)
                     (bump (fighter1 f, weight_class f) (\<lambda>r. r\<lparr>total := total r + 1\<rparr>) F)))
              else if label f = 0 then
                bump (fighter1 f, weight_class f) (\<lambda>r. r\<lparr>losses := losses r + 1\<rparr>)
                 (bump (fighter2 f, weight_class f) (\<lambda>r. r\<lparr>wins := wins r + 1\<rparr>)
                   (bump (fighter2 f, weight_class f) (\<lambda>r. r\<lparr>total := total r + 1\<rparr>)
                     (bump (fighter1 f, weight_class f) (\<lambda>r. r\<lparr>total := total r + 1\<rparr>) F)))
              else
                bump (fighter2 f, weight_class f) (\<lambda>r. r\<lparr>total := total r + 1\<rparr>)
                  (bump (fighter1 f, weight_class f) (\<lambda>r. r\<lparr>total := total r + 1\<rparr>) F))"
proof -
  let ?k1 = "(fighter1 f, weight_class f)" and ?k2 = "(fighter2 f, weight_class f)"
  obtain r1 c1 where g1: "get_or_add_fighter al ctx (fighter1 f) (weight_class f) = (r1, c1)"
    by force
  obtain r2 c2 where g2: "get_or_add_fighter al c1 (fighter2 f) (weight_class f) = (r2, c2)"
    by force
  obtain h c3 where g3:
    "get_or_add_h2h al c2 (fighter1 f) (fighter2 f) (weight_class f) = (h, c3)"
    by force
  from get_or_add_fighter_never_null[OF nf, of c1 "fighter2 f" "weight_class f"] g2
  obtain p2 where r2: "r2 = Some p2" by auto
  from get_or_add_fighter_never_null[OF nf, of ctx "fighter1 f" "weight_class f"] g1
  obtain p1 where r1: "r1 = Some p1" by auto
  from get_or_add_h2h_never_null[OF nf, of c2 "fighter1 f" "fighter2 f" "weight_class f"] g3
  obtain ph where h: "h = Some ph" by auto
  from fits have len: "length (fighter1 f) \<le> 63" "length (fighter2 f) \<le> 63"
    "length (weight_class f) \<le> 63" by (simp_all add: fight_fits_def)
  have inv1: "context_inv c1 hs" by (rule get_or_add_fighter_inv[OF inv g1 len(1,3)])
  have inv2: "context_inv c2 hs" by (rule get_or_add_fighter_inv[OF inv1 g2 len(2,3)])
  have f3: "fighters c3 = fighters c2" by (rule get_or_add_h2h_fighters[OF g3])
  define F where "F = fighters c3"
  define KS where "KS = map fr_key F"
  have dKS: "distinct KS" using inv2 f3 by (simp add: KS_def F_def context_inv_def)
  from get_or_add_fighter_ptr[OF g1[unfolded r1] len(1,3)]
  have i1: "snd p1 < length (fighters c1)" "fr_key (fighters c1 ! snd p1) = ?k1" by simp_all
  from get_or_add_fighter_extends[OF g2] obtain ext where ext: "fighters c2 = fighters c1 @ ext" ..
  have k1: "snd p1 < length F" "KS ! snd p1 = ?k1"
    using i1 ext f3 by (simp_all add: F_def KS_def nth_append)
  from get_or_add_fighter_ptr[OF g2[unfolded r2] len(2,3)]
  have k2: "snd p2 < length F" "KS ! snd p2 = ?k2"
    using f3 by (simp_all add: F_def KS_def)
  have invF: "context_inv (ctx\<lparr>fighters := F\<rparr>) hs"
    using inv2 f3 by (simp add: context_inv_def F_def)
  have mem: "?k1 \<in> fr_key ` set F" "?k2 \<in> fr_key ` set F"
    using k1 k2 by (metis KS_def length_map nth_mem set_map)+
  from upd g1 g2 g3 r1 r2 h
  obtain c4 c5 c6 where
    m4: "modify_fighter p1 (\<lambda>r. r\<lparr>total := total r + 1\<rparr>) c3 = Inr c4" and
    m5: "modify_fighter p2 (\<lambda>r. r\<lparr>total := total r + 1\<rparr>) c4 = Inr c5" and
    m6: "modify_h2h ph (\<lambda>r. r\<lparr>h2h_total := h2h_total r + 1\<rparr>) c5 = Inr c6" and
    rest: "(if label f = 1 then
               bind_err (modify_fighter p1 (\<lambda>r. r\<lparr>wins := wins r + 1\<rparr>) c6) (\<lambda>c7.
               bind_err (modify_fighter p2 (\<lambda>r. r\<lparr>losses := losses r + 1\<rparr>) c7) (\<lambda>c8.
               bind_err (read_h2h c8 ph) (\<lambda>hr.
               if strcmp (name_a hr) (fighter1 f) = 0
               then modify_h2h ph (\<lambda>r. r\<lparr>wins_a := wins_a r + 1\<rparr>) c8
               else modify_h2h ph (\<lambda>r. r\<lparr>wins_b := wins_b r + 1\<rparr>) c8)))
             else if label f = 0 then
               bind_err (modify_fighter p2 (\<lambda>r. r\<lparr>wins := wins r + 1\<rparr>) c6) (\<lambda>c7.
               bind_err (modify_fighter p1 (\<lambda>r. r\<lparr>losses := losses r + 1\<rparr>) c7) (\<lambda>c8.
               bind_err (read_h2h c8 ph) (\<lambda>hr.
               if strcmp (name_a hr) (fighter2 f) = 0
               then modify_h2h ph (\<lambda>r. r\<lparr>wins_a := wins_a r + 1\<rparr>) c8
               else modify_h2h ph (\<lambda>r. r\<lparr>wins_b := wins_b r + 1\<rparr>) c8)))
             else Inr c6) = Inr ctx'"
    unfolding update_context_with_result_def by (auto simp: bind_err_Inr)
  have s4: "fighters c4 = bump ?k1 (\<lambda>r. r\<lparr>total := total r + 1\<rparr>) F \<and> map fr_key (fighters c4) = KS"
    by (rule modify_fighter_step[OF m4 _ dKS k1(2), unfolded F_def[symmetric]])
       (simp_all add: KS_def fr_key_def)
  have s5: "fighters c5 = bump ?k2 (\<lambda>r. r\<lparr>total := total r + 1\<rparr>) (fighters c4)
      \<and> map fr_key (fighters c5) = KS"
    by (rule modify_fighter_step[OF m5 conjunct2[OF s4] dKS k2(2)]) (simp add: fr_key_def)
  have s6: "fighters c6 = fighters c5" by (rule modify_h2h_step[OF m6])
  have k6: "map fr_key (fighters c6) = KS" using conjunct2[OF s5] by (simp only: s6)
  show ?thesis
  proof (intro exI[of _ F] conjI invF mem)
    consider "label f = 1" | "label f = 0" | "label f \<noteq> 1" "label f \<noteq> 0" by blast
    then show "fighters ctx' =
             (if label f = 1 then
                bump ?k2 (\<lambda>r. r\<lparr>losses := losses r + 1\<rparr>)
                 (bump ?k1 (\<lambda>r. r\<lparr>wins := wins r + 1\<rparr>)
                   (bump ?k2 (\<lambda>r. r\<lparr>total := total r + 1\<rparr>)
                     (bump ?k1 (\<lambda>r. r\<lparr>total := total r + 1\<rparr>) F)))
              else if label f = 0 then
                bump ?k1 (\<lambda>r. r\<lparr>losses := losses r + 1\<rparr>)
                 (bump ?k2 (\<lambda>r. r\<lparr>wins := wins r + 1\<rparr>)
                   (bump ?k2 (\<lambda>r. r\<lparr>total := total r + 1\<rparr>)
                     (bump ?k1 (\<lambda>r. r\<lparr>total := total r + 1\<rparr>) F)))
              else
                bump ?k2 (\<lambda>r. r\<lparr>total := total r + 1\<rparr>)
                  (bump ?k1 (\<lambda>r. r\<lparr>total := total r + 1\<rparr>) F))"
    proof cases
      case 1
      with rest obtain c7 c8 where
        m7: "modify_fighter p1 (\<lambda>r. r\<lparr>wins := wins r + 1\<rparr>) c6 = Inr c7" and
        m8: "modify_fighter p2 (\<lambda>r. r\<lparr>losses := losses r + 1\<rparr>) c7 = Inr c8" and
        m9: "fighters ctx' = fighters c8"
        by (auto simp: bind_err_Inr dest: modify_h2h_step split: if_splits)
      have s7: "fighters c7 = bump ?k1 (\<lambda>r. r\<lparr>wins := wins r + 1\<rparr>) (fighters c6)
          \<and> map fr_key (fighters c7) = KS"
        by (rule modify_fighter_step[OF m7 k6 dKS k1(2)]) (simp add: fr_key_def)
      have s8: "fighters c8 = bump ?k2 (\<lambda>r. r\<lparr>losses := losses r + 1\<rparr>) (fighters c7)
          \<and> map fr_key (fighters c8) = KS"
        by (rule modify_fighter_step[OF m8 conjunct2[OF s7] dKS k2(2)]) (simp add: fr_key_def)
      from m9 1 s4 s5 s6 s7 s8 show ?thesis by simp
    next
      case 2
      with rest obtain c7 c8 where
        m7: "modify_fighter p2 (\<lambda>r. r\<lparr>wins := wins r + 1\<rparr>) c6 = Inr c7" and
        m8: "modify_fighter p1 (\<lambda>r. r\<lparr>losses := losses r + 1\<rparr>) c7 = Inr c8" and
        m9: "fighters ctx' = fighters c8"
        by (auto simp: bind_err_Inr dest: modify_h2h_step split: if_splits)
      have s7: "fighters c7 = bump ?k2 (\<lambda>r. r\<lparr>wins := wins r + 1\<rparr>) (fighters c6)
          \<and> map fr_key (fighters c7) = KS"
        by (rule modify_fighter_step[OF m7 k6 dKS k2(2)]) (simp add: fr_key_def)
      have s8: "fighters c8 = bump ?k1 (\<lambda>r. r\<lparr>losses := losses r + 1\<rparr>) (fighters c7)
          \<and> map fr_key (fighters c8) = KS"
        by (rule modify_fighter_step[OF m8 conjunct2[OF s7] dKS k1(2)]) (simp add: fr_key_def)
      from m9 2 s4 s5 s6 s7 s8 show ?thesis by simp
    next
      case 3
      with rest have "ctx' = c6" by simp
      with 3 s4 s5 s6 show ?thesis by simp
    qed
  qed
qed

lemma update_step_inv:
  assumes inv: "context_inv ctx hs" and fits: "fight_fits f"
    and lab: "resolved f"
    and nf: "never_fails al"
    and upd: "update_context_with_result al ctx f = Inr ctx'"
  shows "context_inv ctx' (hs @ [f])"
proof -
  from update_context_fighters[OF inv fits nf upd] obtain F where
    invF: "context_inv (ctx\<lparr>fighters := F\<rparr>) hs" and
    mem: "(fighter1 f, weight_class f) \<in> fr_key ` set F"
         "(fighter2 f, weight_class f) \<in> fr_key ` set F" and
    res: "fighters ctx' =
             (if label f = 1 then
                bump (fighter2 f, weight_class f) (\<lambda>r. r\<lparr>losses := losses r + 1\<rparr>)
                 (bump (fighter1 f, weight_class f) (\<lambda>r. r\<lparr>wins := wins r + 1\<rparr>)
                   (bump (fighter2 f, weight_class f) (\<lambda>r. r\<lparr>total := total r + 1\<rparr>)
                     (bump (fighter1 f, weight_class f) (\<lambda>r. r\<lparr>total := total r + 1\<rparr>) F)))
              else if label f = 0 then
                bump (fighter1 f, weight_class f) (\<lambda>r. r\<lparr>losses := losses r + 1\<rparr>)
                 (bump (fighter2 f, weight_class f) (\<lambda>r. r\<lparr>wins := wins r + 1\<rparr>)
                   (bump (fighter2 f, weight_class f) (\<lambda>r. r\<lparr>total := total r + 1\<rparr>)
                     (bump (fighter1 f, weight_class f) (\<lambda>r. r\<lparr>total := total r + 1\<rparr>) F)))
              else
                bump (fighter2 f, weight_class f) (\<lambda>r. r\<lparr>total := total r + 1\<rparr>)
                  (bump (fighter1 f, weight_class f) (\<lambda>r. r\<lparr>total := total r + 1\<rparr>) F))"
    by blast
  have keys: "map fr_key (fighters ctx') = map fr_key F"
    using res by (simp add: keys_bump fr_key_def)
  have d: "distinct (map fr_key (fighters ctx'))"
    using invF keys by (simp add: context_inv_def)
  have cover: "\<forall>g \<in> set (hs @ [f]).
      (fighter1 g, weight_class g) \<in> fr_key ` set (fighters ctx') \<and>
      (fighter2 g, weight_class g) \<in> fr_key ` set (fighters ctx')"
  proof -
    have "fr_key ` set (fighters ctx') = fr_key ` set F"
      using keys by (metis set_map)
    with invF mem show ?thesis by (auto simp: context_inv_def)
  qed
  have counts: "\<forall>r \<in> set (fighters ctx').
      total r = int (appearances (hs @ [f]) (name r) (fr_weight_class r)) \<and>
      wins r + losses r = total r"
  proof
    fix r' assume r': "r' \<in> set (fighters ctx')"
    let ?k1 = "(fighter1 f, weight_class f)" and ?k2 = "(fighter2 f, weight_class f)"
    have old: "\<forall>r \<in> set F. total r = int (appearances hs (name r) (fr_weight_class r)) \<and>
        wins r + losses r = total r"
      using invF by (simp add: context_inv_def)
    from lab[unfolded resolved_def] show "total r' = int (appearances (hs @ [f]) (name r') (fr_weight_class r')) \<and>
      wins r' + losses r' = total r'"
    proof
      assume l: "label f = 0"
      with r' res obtain r where rF: "r \<in> set F" and
        eq: "r' = upd_rec ?k1 (\<lambda>r. r\<lparr>losses := losses r + 1\<rparr>)
                 (upd_rec ?k2 (\<lambda>r. r\<lparr>wins := wins r + 1\<rparr>)
                 (upd_rec ?k2 (\<lambda>r. r\<lparr>total := total r + 1\<rparr>)
                 (upd_rec ?k1 (\<lambda>r. r\<lparr>total := total r + 1\<rparr>) r)))"
        by (auto simp: bump_upd_rec)
      from old rF have o: "total r = int (appearances hs (name r) (fr_weight_class r))"
        "wins r + losses r = total r" by simp_all
      show ?thesis
        unfolding eq using o
        by (cases "fr_key r = ?k1"; cases "fr_key r = ?k2")
           (auto simp: upd_rec_def appearances_snoc fr_key_def)
    next
      assume l: "label f = 1"
      with r' res obtain r where rF: "r \<in> set F" and
        eq: "r' = upd_rec ?k2 (\<lambda>r. r\<lparr>losses := losses r + 1\<rparr>)
                 (upd_rec ?k1 (\<lambda>r. r\<lparr>wins := wins r + 1\<rparr>)
                 (upd_rec ?k2 (\<lambda>r. r\<lparr>total := total r + 1\<rparr>)
                 (upd_rec ?k1 (\<lambda>r. r\<lparr>total := total r + 1\<rparr>) r)))"
        by (auto simp: bump_upd_rec)
      from old rF have o: "total r = int (appearances hs (name r) (fr_weight_class r))"
        "wins r + losses r = total r" by simp_all
      show ?thesis
        unfolding eq using o
        by (cases "fr_key r = ?k1"; cases "fr_key r = ?k2")
           (auto simp: upd_rec_def appearances_snoc fr_key_def)
    qed
  qed
  from d cover counts show ?thesis by (simp add: context_inv_def)
qed

lemma update_all_inv:
  assumes "context_inv ctx hs"
    and "\<forall>f \<in> set fs. fight_fits f \<and> resolved f"
    and "never_fails al"
    and "update_all al ctx fs = Inr ctx'"
  shows "context_inv ctx' (hs @ fs)"
  using assms
proof (induction fs arbitrary: ctx hs)
  case Nil
  then show ?case by simp
next
  case (Cons f fs)
  from Cons.prems(4) obtain c where
    u: "update_context_with_result al ctx f = Inr c" and r: "update_all al c fs = Inr ctx'"
    by (auto split: sum.splits)
  have "context_inv c (hs @ [f])"
    using update_step_inv[OF Cons.prems(1) _ _ Cons.prems(3) u] Cons.prems(2) by simp
  from Cons.IH[OF this _ Cons.prems(3) r] Cons.prems(2) show ?case by simp
qed

lemma init_context_inv: "context_inv init_context []"
  by (simp add: context_inv_def init_context_def)

lemma get_or_add_h2h_addr:
  "get_or_add_h2h al c a b w = (r, c') \<Longrightarrow> fighters_addr c' = fighters_addr c"
  by (auto simp: get_or_add_h2h_def ensure_h2h_cap_def Let_def
      split: option.splits if_splits realloc_outcome.splits)

text \<open>
  The pointer \<^verbatim>\<open>r1\<close> is taken before the second lookup. When that lookup has to
  grow a full array and \<^verbatim>\<open>realloc\<close> moves it, the first increment goes through a
  pointer into the old block.
\<close>

lemma update_context_stale_pointer:
  assumes found: "fighter_index (fighters ctx) (fighter1 f) (weight_class f) = Some i"
    and absent: "fighter_index (fighters ctx) (fighter2 f) (weight_class f) = None"
    and full: "length (fighters ctx) = fighter_cap ctx" "fighter_cap ctx \<noteq> 0"
    and moved: "al Fighters_Array (fighter_cap ctx * 2) = Realloc_Moved"
    and nf: "never_fails al"
  shows "update_context_with_result al ctx f = Inl Use_After_Realloc"
proof -
  define c2 where "c2 = ctx\<lparr>fighter_cap := fighter_cap ctx * 2,
      fighters_addr := Suc (fighters_addr ctx),
      fighters := fighters ctx @
        [\<lparr>name = strncpy63 (fighter2 f), fr_weight_class = strncpy63 (weight_class f),
          wins = 0, losses = 0, total = 0\<rparr>]\<rparr>"
  have g1: "get_or_add_fighter al ctx (fighter1 f) (weight_class f) =
      (Some (fighters_addr ctx, i), ctx)"
    using found by (simp add: get_or_add_fighter_def)
  have g2: "get_or_add_fighter al ctx (fighter2 f) (weight_class f) =
      (Some (Suc (fighters_addr ctx), length (fighters ctx)), c2)"
    using absent full moved
    by (simp add: get_or_add_fighter_def ensure_fighter_cap_def Let_def c2_def)
  obtain h c3 where g3:
    "get_or_add_h2h al c2 (fighter1 f) (fighter2 f) (weight_class f) = (h, c3)" by force
  from get_or_add_h2h_never_null[OF nf, of c2 "fighter1 f" "fighter2 f" "weight_class f"] g3
  obtain ph where h: "h = Some ph" by auto
  have "fighters_addr c3 = Suc (fighters_addr ctx)"
    using get_or_add_h2h_addr[OF g3] by (simp add: c2_def)
  hence "modify_fighter (fighters_addr ctx, i) (\<lambda>r. r\<lparr>total := total r + 1\<rparr>) c3 =
      Inl Use_After_Realloc"
    by (simp add: modify_fighter_def)
  thus ?thesis
    by (simp add: update_context_with_result_def g1 g2 g3 h bind_err_def)
qed

text \<open>With an allocator that never moves a block every update returns.\<close>

lemma get_or_add_fighter_in_place:
  assumes "get_or_add_fighter in_place c n w = (r, c')"
  shows "\<exists>p. r = Some p \<and> fst p = fighters_addr c' \<and> snd p < length (fighters c') \<and>
           fighters_addr c' = fighters_addr c \<and> length (fighters c) \<le> length (fighters c')"
  using assms
  by (auto simp: get_or_add_fighter_def ensure_fighter_cap_def Let_def in_place_def
      dest: fighter_index_Some split: option.splits if_splits)

lemma h2h_index_less: "h2h_index hs l r w = Some i \<Longrightarrow> i < length hs"
  by (induction hs arbitrary: i) (auto split: if_splits)

lemma get_or_add_h2h_in_place:
  assumes "get_or_add_h2h in_place c a b w = (r, c')"
  shows "\<exists>p. r = Some p \<and> fst p = h2h_addr c' \<and> snd p < length (h2h c') \<and>
           fighters_addr c' = fighters_addr c \<and> fighters c' = fighters c"
  using assms
  by (auto simp: get_or_add_h2h_def ensure_h2h_cap_def Let_def in_place_def
      dest: h2h_index_less split: option.splits if_splits)

lemma update_context_in_place_returns:
  "\<exists>c'. update_context_with_result in_place ctx f = Inr c'"
proof -
  obtain r1 c1 where g1: "get_or_add_fighter in_place ctx (fighter1 f) (weight_class f) = (r1, c1)"
    by force
  obtain r2 c2 where g2: "get_or_add_fighter in_place c1 (fighter2 f) (weight_class f) = (r2, c2)"
    by force
  obtain h c3 where g3:
    "get_or_add_h2h in_place c2 (fighter1 f) (fighter2 f) (weight_class f) = (h, c3)"
    by force
  from get_or_add_fighter_in_place[OF g1] obtain p1 where
    p1: "r1 = Some p1" "fst p1 = fighters_addr c1" "snd p1 < length (fighters c1)" by blast
  from get_or_add_fighter_in_place[OF g2] obtain p2 where
    p2: "r2 = Some p2" "fst p2 = fighters_addr c2" "snd p2 < length (fighters c2)"
      "fighters_addr c2 = fighters_addr c1" "length (fighters c1) \<le> length (fighters c2)"
    by blast
  from get_or_add_h2h_in_place[OF g3] obtain ph where
    ph: "h = Some ph" "fst ph = h2h_addr c3" "snd ph < length (h2h c3)"
      "fighters_addr c3 = fighters_addr c2" "fighters c3 = fighters c2"
    by blast
  have v: "fst p1 = fighters_addr c3" "snd p1 < length (fighters c3)"
    "fst p2 = fighters_addr c3" "snd p2 < length (fighters c3)"
    using p1 p2 ph by simp_all
  show ?thesis
    using v ph(2,3)
    by (simp add: update_context_with_result_def g1 g2 g3 p1(1) p2(1) ph(1) bind_err_def
        modify_fighter_def modify_h2h_def read_h2h_def)
qed

lemma update_all_in_place_returns: "\<exists>c'. update_all in_place ctx fs = Inr c'"
proof (induction fs arbitrary: ctx)
  case Nil
  show ?case by simp
next
  case (Cons f fs)
  from update_context_in_place_returns[of ctx f] obtain c where
    "update_context_with_result in_place ctx f = Inr c" ..
  with Cons[of c] show ?case by simp
qed


lemma appearances_involving:
  "\<forall>f \<in> set fs. fighter1 f \<noteq> fighter2 f \<Longrightarrow>
     appearances fs n w = observations_involving fs n w"
  by (induction fs) (auto simp: appearances_def observations_involving_def)

text \<open>
  C2, as amended. Take observations with resolved labels whose strings fit their fields, and
  an allocator that never fails. Recording all of them from the empty context returns when
  the allocator never moves a block; and whenever it returns (no record pointer was used
  after its array had moved), the context has one record
  per (name, weight class); the \<open>total\<close> of every record is the number of sides on
  which that fighter stands in the observations, which is the number of observations
  involving the fighter when no observation names one fighter on both sides; and
  \<open>wins + losses = total\<close> in every record. Moreover the predicate \<open>context_inv\<close>
  is kept by every single update that returns.
\<close>

theorem update_context_counts:
  assumes "\<forall>f \<in> set fs. fight_fits f \<and> resolved f" and "never_fails al"
  shows "(al = in_place \<longrightarrow> (\<exists>ctx. update_all al init_context fs = Inr ctx)) \<and>
         (\<forall>ctx. update_all al init_context fs = Inr ctx \<longrightarrow>
            context_inv ctx fs \<and>
            (\<forall>r \<in> set (fighters ctx).
               total r = int (appearances fs (name r) (fr_weight_class r)) \<and>
               wins r + losses r = total r \<and>
               ((\<forall>f \<in> set fs. fighter1 f \<noteq> fighter2 f) \<longrightarrow>
                  total r = int (observations_involving fs (name r) (fr_weight_class r))))) \<and>
         (\<forall>c hs f c'. context_inv c hs \<and> f \<in> set fs \<and>
            update_context_with_result al c f = Inr c' \<longrightarrow> context_inv c' (hs @ [f]))"
proof (intro conjI allI impI)
  assume "al = in_place"
  thus "\<exists>ctx. update_all al init_context fs = Inr ctx"
    using update_all_in_place_returns by simp
next
  fix ctx assume run: "update_all al init_context fs = Inr ctx"
  from update_all_inv[OF init_context_inv assms run]
  show inv: "context_inv ctx fs" by simp
  show "\<forall>r \<in> set (fighters ctx).
          total r = int (appearances fs (name r) (fr_weight_class r)) \<and>
          wins r + losses r = total r \<and>
          ((\<forall>f \<in> set fs. fighter1 f \<noteq> fighter2 f) \<longrightarrow>
             total r = int (observations_involving fs (name r) (fr_weight_class r)))"
    using inv by (auto simp: context_inv_def appearances_involving)
next
  fix c hs f c'
  assume "context_inv c hs \<and> f \<in> set fs \<and> update_context_with_result al c f = Inr c'"
  with assms show "context_inv c' (hs @ [f])"
    by (auto intro: update_step_inv)
qed

theorem update_context_counts_witness:
  "never_fails in_place \<and>
   list_all fight_fits rematch \<and> list_all resolved rematch \<and>
   update_all in_place init_context rematch = Inr rematch_context \<and>
   context_inv rematch_context rematch \<and>
   map total (fighters rematch_context) = [2, 2] \<and>
   observations_involving rematch ''Ann'' ''Lightweight'' = 2"
proof -
  have nf: "never_fails in_place" by (simp add: never_fails_def in_place_def)
  have ok: "\<forall>f \<in> set rematch. fight_fits f \<and> resolved f"
    by (simp add: rematch_def fight_fits_def resolved_def)
  have run: "update_all in_place init_context rematch = Inr rematch_context"
    by (simp add: rematch_def rematch_context_def ctx_eval)
  from update_context_counts[OF ok nf] run have "context_inv rematch_context rematch"
    by blast
  with nf ok run show ?thesis
    by (simp add: list_all_iff rematch_context_def observations_involving_def rematch_def)
qed

text \<open>
  C2 as stated fails: one resolved observation that names the same fighter on both sides
  leaves a record with \<open>total = 2\<close>, while one observation involves that fighter.
\<close>

theorem self_fight_counts_twice:
  "resolved self_fight \<and> fight_fits self_fight \<and> never_fails in_place \<and>
   update_all in_place init_context [self_fight] =
     Inr \<lparr>fighters =
            [\<lparr>name = ''Ann'', fr_weight_class = ''Lightweight'',
              wins = 1, losses = 1, total = 2\<rparr>],
          fighter_cap = 128, fighters_addr = 0,
          h2h =
            [\<lparr>name_a = ''Ann'', name_b = ''Ann'', h2h_weight_class = ''Lightweight'',
              wins_a = 1, wins_b = 0, h2h_total = 1\<rparr>],
          h2h_cap = 128, h2h_addr = 0\<rparr> \<and>
   observations_involving [self_fight] ''Ann'' ''Lightweight'' = 1"
  by (simp add: self_fight_def ctx_eval resolved_def fight_fits_def never_fails_def
      observations_involving_def)

subsection \<open>The feature loop of train and later observations\<close>

lemma sdiv_nonneg: "0 \<le> k \<Longrightarrow> (k * 8) sdiv 10 = (k * 8) div (10::int)"
  by (cases "k = 0") (simp_all add: signed_divide_int_def sgn_if)

lemma train_base_count_nat:
  "train_base_count (int n) =
     (if int n * 8 div 10 < 1 then (if 1 \<ge> int n then int n - 1 else 1)
      else if int n * 8 div 10 \<ge> int n then int n - 1 else int n * 8 div 10)"
  by (simp add: train_base_count_def Let_def sdiv_nonneg)

lemma train_base_count_mono:
  "K \<le> N \<Longrightarrow> train_base_count (int K) \<le> train_base_count (int N)"
  unfolding train_base_count_nat by (auto split: if_splits) 

lemma insert_fight_chronological:
  "chronological (f # fs) \<Longrightarrow> insert_fight f fs = f # fs"
  by (cases fs) (auto simp: chronological_def)

lemma qsort_fights_chronological:
  "chronological fs \<Longrightarrow> qsort_fights fs = fs"
proof (induction fs)
  case Nil
  then show ?case by (simp add: qsort_fights_def)
next
  case (Cons f fs)
  hence "chronological fs" by (simp add: chronological_def)
  with Cons have "qsort_fights fs = fs" by simp
  hence "qsort_fights (f # fs) = insert_fight f fs" by (simp add: qsort_fights_def)
  with Cons.prems show ?case by (simp add: insert_fight_chronological)
qed

lemma chronological_take: "chronological fs \<Longrightarrow> chronological (take k fs)"
  unfolding chronological_def by (rule sorted_wrt_take)

lemma feature_loop_length:
  "feature_loop al B i ctx xs = Inr r \<Longrightarrow> length r = length xs"
proof (induction xs arbitrary: i ctx r)
  case Nil
  then show ?case by simp
next
  case (Cons f xs)
  then show ?case
    by (auto simp: bind_err_Inr split: prod.splits)
qed

lemma feature_loop_agree:
  assumes "B \<le> B'"
    and "feature_loop al B i ctx xs = Inr r"
    and "feature_loop al B' i ctx (xs @ ys) = Inr r'"
  shows "\<forall>j < length xs. int (i + j) \<le> B \<longrightarrow> r ! j = r' ! j"
  using assms(2,3)
proof (induction xs arbitrary: i ctx r r')
  case Nil
  then show ?case by simp
next
  case (Cons f xs)
  from Cons.prems(1) obtain feat c1 c2 rest where
    cf: "compute_features_with al f ctx = Inr (feat, c1)" and
    up: "(if int i < B then update_context_with_result al c1 f else Inr c1) = Inr c2" and
    rl: "feature_loop al B (Suc i) c2 xs = Inr rest" and
    r: "r = (feat, real_of_int (label f)) # rest"
    by (auto simp: bind_err_Inr split: prod.splits)
  from Cons.prems(2) cf obtain c2' rest' where
    up': "(if int i < B' then update_context_with_result al c1 f else Inr c1) = Inr c2'" and
    rl': "feature_loop al B' (Suc i) c2' (xs @ ys) = Inr rest'" and
    r': "r' = (feat, real_of_int (label f)) # rest'"
    by (auto simp: bind_err_Inr split: prod.splits)
  show ?case
  proof (intro allI impI)
    fix j assume j: "j < length (f # xs)" and b: "int (i + j) \<le> B"
    show "r ! j = r' ! j"
    proof (cases j)
      case 0
      with r r' show ?thesis by simp
    next
      case (Suc k)
      with b have "int i < B" by simp
      with \<open>B \<le> B'\<close> up up' have "c2' = c2" by simp
      from Cons.IH[OF rl rl'[unfolded this]] j b Suc
      have "rest ! k = rest' ! k" by simp
      with Suc r r' show ?thesis by simp
    qed
  qed
qed

lemma train_features_prefix_general:
  assumes chron: "chronological fights" and K: "K \<le> length fights"
    and runK: "train_features al (take K fights) = Inr rowsK"
    and runN: "train_features al fights = Inr rowsN"
  shows "length rowsK = K \<and> length rowsN = length fights \<and>
         (\<forall>i < K. int i \<le> train_base_count (int K) \<longrightarrow> rowsK ! i = rowsN ! i)"
proof -
  let ?B = "train_base_count (int K)" and ?B' = "train_base_count (int (length fights))"
  have qN: "qsort_fights fights = fights" by (rule qsort_fights_chronological[OF chron])
  have qK: "qsort_fights (take K fights) = take K fights"
    by (rule qsort_fights_chronological[OF chronological_take[OF chron]])
  have "length (take K fights) = K" using K by simp
  with runK qK have lK: "feature_loop al ?B 0 init_context (take K fights) = Inr rowsK"
    by (simp only: train_features_def)
  from runN qN have "feature_loop al ?B' 0 init_context fights = Inr rowsN"
    by (simp add: train_features_def)
  hence lN: "feature_loop al ?B' 0 init_context (take K fights @ drop K fights) = Inr rowsN"
    by simp
  from feature_loop_agree[OF train_base_count_mono[OF K] lK lN]
    feature_loop_length[OF lK] feature_loop_length[OF lN] K
  show ?thesis by simp
qed

lemma chronological_dates:
  "chronological fs = sorted_wrt (\<lambda>a b. strcmp a b < 0) (map event_date fs)"
  by (simp add: chronological_def compare_fight_date_def sorted_wrt_map)

lemma relabel_event_date: "g = f\<lparr>label := l\<rparr> \<Longrightarrow> event_date g = event_date f"
  by simp

lemma same_but_labels_dates:
  "same_but_labels fs gs \<Longrightarrow> map event_date gs = map event_date fs"
  unfolding same_but_labels_def
  by (induction rule: list_all2_induct) (auto dest: relabel_event_date)

lemma same_but_labels_chronological:
  "same_but_labels fs gs \<Longrightarrow> chronological gs = chronological fs"
  by (simp add: chronological_dates same_but_labels_dates)

lemma compute_features_with_label:
  "compute_features_with al (f\<lparr>label := l\<rparr>) ctx = compute_features_with al f ctx"
  by (simp add: compute_features_with_def feature_vector_def)

lemma feature_loop_labels:
  assumes "list_all2 (\<lambda>f g. g = f\<lparr>label := label g\<rparr>) xs xs'"
    and "feature_loop al B k ctx xs = Inr r"
    and "feature_loop al B k ctx xs' = Inr r'"
  shows "\<forall>i < length xs.
           (\<forall>j < i. int (k + j) < B \<longrightarrow> label (xs' ! j) = label (xs ! j)) \<longrightarrow>
           fst (r' ! i) = fst (r ! i)"
  using assms
proof (induction arbitrary: k ctx r r' rule: list_all2_induct)
  case Nil
  then show ?case by simp
next
  case (Cons f fs g gs)
  from Cons.prems(1) obtain feat c1 c2 rest where
    cf: "compute_features_with al f ctx = Inr (feat, c1)" and
    up: "(if int k < B then update_context_with_result al c1 f else Inr c1) = Inr c2" and
    rl: "feature_loop al B (Suc k) c2 fs = Inr rest" and
    r: "r = (feat, real_of_int (label f)) # rest"
    by (auto simp: bind_err_Inr split: prod.splits)
  have cg: "compute_features_with al g ctx = Inr (feat, c1)"
    using cf Cons.hyps(1) compute_features_with_label[where al = al and f = f and l = "label g" and ctx = ctx]
    by simp
  from Cons.prems(2) cg obtain c2' rest' where
    up': "(if int k < B then update_context_with_result al c1 g else Inr c1) = Inr c2'" and
    rl': "feature_loop al B (Suc k) c2' gs = Inr rest'" and
    r': "r' = (feat, real_of_int (label g)) # rest'"
    by (auto simp: bind_err_Inr split: prod.splits)
  show ?case
  proof (intro allI impI)
    fix i
    assume i: "i < length (f # fs)"
      and lab: "\<forall>j < i. int (k + j) < B \<longrightarrow> label ((g # gs) ! j) = label ((f # fs) ! j)"
    show "fst (r' ! i) = fst (r ! i)"
    proof (cases i)
      case 0
      with r r' show ?thesis by simp
    next
      case (Suc n)
      have "c2' = c2"
      proof (cases "int k < B")
        case True
        with lab Suc have "label g = label f" by force
        with Cons.hyps(1) have "g = f" by simp
        with True up up' show ?thesis by simp
      next
        case False
        with up up' show ?thesis by simp
      qed
      from lab Suc have "\<forall>j < n. int (Suc k + j) < B \<longrightarrow> label (gs ! j) = label (fs ! j)"
        by fastforce
      with Cons.IH[OF rl rl'[unfolded \<open>c2' = c2\<close>]] i Suc
      have "fst (rest' ! n) = fst (rest ! n)" by simp
      with Suc r r' show ?thesis by simp
    qed
  qed
qed

lemma leak_dataset_chronological: "chronological leak_dataset"
  by (simp add: leak_dataset_def chronological_def compare_fight_date_def)

lemmas feature_eval = compute_features_with_def deref_fighter_def deref_h2h_def

lemma feature_vector_nth_16:
  "feature_vector fight r1 r2 h ! 16 =
     real_of_int ((case r1 of None \<Rightarrow> 0 | Some r \<Rightarrow> total r) -
                  (case r2 of None \<Rightarrow> 0 | Some r \<Rightarrow> total r))"
  by (simp add: feature_vector_def Let_def)

lemma rematch_chronological: "chronological rematch"
  by (simp add: rematch_def chronological_def compare_fight_date_def)

lemma rematch_relabelled_chronological: "chronological rematch_relabelled"
  by (simp add: rematch_relabelled_def chronological_def compare_fight_date_def)

lemma rematch_run: "train_features in_place rematch = Inr rematch_rows"
  by (simp add: train_features_def qsort_fights_chronological[OF rematch_chronological]
      train_base_count_nat)
     (simp add: rematch_def rematch_rows_def ctx_eval feature_eval)

lemma rematch_run1: "train_features in_place (take 1 rematch) = Inr (take 1 rematch_rows)"
  by (simp add: train_features_def
      qsort_fights_chronological[OF chronological_take[OF rematch_chronological]]
      train_base_count_nat)
     (simp add: rematch_def rematch_rows_def ctx_eval feature_eval)

lemma rematch_relabelled_run:
  "train_features in_place rematch_relabelled = Inr rematch_relabelled_rows"
  by (simp add: train_features_def qsort_fights_chronological[OF rematch_relabelled_chronological]
      train_base_count_nat)
     (simp add: rematch_relabelled_def rematch_relabelled_rows_def rematch_rows_def
        ctx_eval feature_eval)

lemma rematch_same_but_labels: "same_but_labels rematch rematch_relabelled"
  by (simp add: same_but_labels_def rematch_def rematch_relabelled_def example_fight_def)

lemma compute_features_in_place_returns:
  "\<exists>feat c'. compute_features_with in_place f ctx = Inr (feat, c')"
proof -
  obtain r1 c1 where g1: "get_or_add_fighter in_place ctx (fighter1 f) (weight_class f) = (r1, c1)"
    by force
  obtain r2 c2 where g2: "get_or_add_fighter in_place c1 (fighter2 f) (weight_class f) = (r2, c2)"
    by force
  obtain h c3 where g3:
    "get_or_add_h2h in_place c2 (fighter1 f) (fighter2 f) (weight_class f) = (h, c3)"
    by force
  from get_or_add_fighter_in_place[OF g1] obtain p1 where
    p1: "r1 = Some p1" "fst p1 = fighters_addr c1" "snd p1 < length (fighters c1)" by blast
  from get_or_add_fighter_in_place[OF g2] obtain p2 where
    p2: "r2 = Some p2" "fst p2 = fighters_addr c2" "snd p2 < length (fighters c2)"
      "fighters_addr c2 = fighters_addr c1" "length (fighters c1) \<le> length (fighters c2)"
    by blast
  from get_or_add_h2h_in_place[OF g3] obtain ph where
    ph: "h = Some ph" "fst ph = h2h_addr c3" "snd ph < length (h2h c3)"
      "fighters_addr c3 = fighters_addr c2" "fighters c3 = fighters c2"
    by blast
  have v: "fst p1 = fighters_addr c3" "snd p1 < length (fighters c3)"
    "fst p2 = fighters_addr c3" "snd p2 < length (fighters c3)"
    using p1 p2 ph by simp_all
  show ?thesis
    using v ph(2,3)
    by (simp add: compute_features_with_def g1 g2 g3 p1(1) p2(1) ph(1) bind_err_def
        deref_fighter_def deref_h2h_def read_fighter_def read_h2h_def)
qed

lemma feature_loop_in_place_returns: "\<exists>rows. feature_loop in_place B i ctx fs = Inr rows"
proof (induction fs arbitrary: i ctx)
  case Nil
  show ?case by simp
next
  case (Cons f fs)
  from compute_features_in_place_returns[of f ctx] obtain feat c1 where
    cf: "compute_features_with in_place f ctx = Inr (feat, c1)" by blast
  from update_context_in_place_returns[of c1 f] obtain c2 where
    up: "(if int i < B then update_context_with_result in_place c1 f else Inr c1) = Inr c2"
    by (cases "int i < B") auto
  from Cons[of "Suc i" c2] obtain rows where "feature_loop in_place B (Suc i) c2 fs = Inr rows" ..
  with cf up show ?case by (simp add: bind_err_def)
qed

text \<open>
  C1, as amended. The feature loop returns on every dataset when the allocator never
  moves a block. On a dataset in strictly increasing date order whose feature loop
  returns: (1) for every \<open>K\<close>, if the loop on the first \<open>K\<close> observations alone returns
  too (same allocator), it yields \<open>K\<close> rows, and row \<open>i\<close> is the same in both runs for
  every \<open>i < K\<close> with \<open>i \<le> train_base_count K\<close>, the boundary of the shorter run;
  (2) the feature vector of row \<open>i\<close> does not change when outcome labels change, as long
  as the labels of the observations before \<open>i\<close> and below the boundary stay: it depends
  on no outcome of the validation rows, of later rows or of row \<open>i\<close> itself.
\<close>

theorem train_features_noninterference:
  assumes "chronological fights" and "train_features al fights = Inr rowsN"
  shows "(al = in_place \<longrightarrow> (\<forall>K. \<exists>rowsK. train_features al (take K fights) = Inr rowsK)) \<and>
         (\<forall>K rowsK. K \<le> length fights \<and> train_features al (take K fights) = Inr rowsK \<longrightarrow>
            length rowsK = K \<and>
            (\<forall>i < K. int i \<le> train_base_count (int K) \<longrightarrow> rowsK ! i = rowsN ! i)) \<and>
         (\<forall>gs rows'. same_but_labels fights gs \<and> train_features al gs = Inr rows' \<longrightarrow>
            (\<forall>i < length fights.
               (\<forall>j < i. int j < train_base_count (int (length fights)) \<longrightarrow>
                  label (gs ! j) = label (fights ! j)) \<longrightarrow>
               fst (rows' ! i) = fst (rowsN ! i)))"
proof (rule conjI[OF _ conjI])
  show "al = in_place \<longrightarrow> (\<forall>K. \<exists>rowsK. train_features al (take K fights) = Inr rowsK)"
  proof (intro impI allI)
    fix K assume "al = in_place"
    thus "\<exists>rowsK. train_features al (take K fights) = Inr rowsK"
      unfolding train_features_def using feature_loop_in_place_returns by simp
  qed
next
  show "\<forall>K rowsK. K \<le> length fights \<and> train_features al (take K fights) = Inr rowsK \<longrightarrow>
            length rowsK = K \<and>
            (\<forall>i < K. int i \<le> train_base_count (int K) \<longrightarrow> rowsK ! i = rowsN ! i)"
  proof (rule allI, rule allI, rule impI)
    fix K rowsK
    assume "K \<le> length fights \<and> train_features al (take K fights) = Inr rowsK"
    with train_features_prefix_general[OF assms(1) _ _ assms(2)]
    show "length rowsK = K \<and>
          (\<forall>i < K. int i \<le> train_base_count (int K) \<longrightarrow> rowsK ! i = rowsN ! i)"
      by blast
  qed
next
  show "\<forall>gs rows'. same_but_labels fights gs \<and> train_features al gs = Inr rows' \<longrightarrow>
            (\<forall>i < length fights.
               (\<forall>j < i. int j < train_base_count (int (length fights)) \<longrightarrow>
                  label (gs ! j) = label (fights ! j)) \<longrightarrow>
               fst (rows' ! i) = fst (rowsN ! i))"
  proof (rule allI, rule allI, rule impI, rule allI, rule impI, rule impI)
    fix gs rows' i
    assume g: "same_but_labels fights gs \<and> train_features al gs = Inr rows'"
      and i: "i < length fights"
      and lab: "\<forall>j < i. int j < train_base_count (int (length fights)) \<longrightarrow>
                  label (gs ! j) = label (fights ! j)"
    from g have len: "length gs = length fights"
      by (auto simp: same_but_labels_def dest: list_all2_lengthD)
    from g assms(1) have cg: "chronological gs"
      using same_but_labels_chronological[of fights gs] by blast
    from assms have l1: "feature_loop al (train_base_count (int (length fights))) 0 init_context
        fights = Inr rowsN"
      by (simp add: train_features_def qsort_fights_chronological)
    from g cg len have l2: "feature_loop al (train_base_count (int (length fights))) 0 init_context
        gs = Inr rows'"
      by (simp add: train_features_def qsort_fights_chronological)
    from g have "list_all2 (\<lambda>f g. g = f\<lparr>label := label g\<rparr>) fights gs"
      by (simp add: same_but_labels_def)
    from feature_loop_labels[OF this l1 l2] i lab
    show "fst (rows' ! i) = fst (rowsN ! i)" by simp
  qed
qed

theorem train_features_noninterference_witness:
  "chronological rematch \<and>
   train_features in_place rematch = Inr rematch_rows \<and>
   train_features in_place (take 1 rematch) = Inr (take 1 rematch_rows) \<and>
   same_but_labels rematch rematch_relabelled \<and>
   train_features in_place rematch_relabelled = Inr rematch_relabelled_rows \<and>
   take 1 rematch_rows ! 0 = rematch_rows ! 0 \<and>
   fst (rematch_relabelled_rows ! 1) = fst (rematch_rows ! 1)"
proof -
  note t = train_features_noninterference[OF rematch_chronological rematch_run]
  have k: "(1::nat) \<le> length rematch" by (simp add: rematch_def)
  from t k rematch_run1 have
    "\<forall>i < 1. int i \<le> train_base_count (int 1) \<longrightarrow> take 1 rematch_rows ! i = rematch_rows ! i"
    by blast
  hence a: "take 1 rematch_rows ! 0 = rematch_rows ! 0"
    by (simp add: train_base_count_nat)
  from t rematch_same_but_labels rematch_relabelled_run have
    "\<forall>i < length rematch.
       (\<forall>j < i. int j < train_base_count (int (length rematch)) \<longrightarrow>
          label (rematch_relabelled ! j) = label (rematch ! j)) \<longrightarrow>
       fst (rematch_relabelled_rows ! i) = fst (rematch_rows ! i)"
    by blast
  hence b: "fst (rematch_relabelled_rows ! 1) = fst (rematch_rows ! 1)"
    by (simp add: rematch_def rematch_relabelled_def train_base_count_nat)
  from a b rematch_chronological rematch_run rematch_run1 rematch_same_but_labels
    rematch_relabelled_run
  show ?thesis by blast
qed

text \<open>
  C1 as stated fails. In the twelve observations of \<open>leak_dataset\<close> the fighter of
  observation 9 also fought in observation 8. Run on the first ten alone, the boundary is
  8 and observation 8 is a validation row: the fight-count delta of row 9 is 0. Run on
  all twelve, the boundary is 9, observation 8 is recorded, and the same delta is 1.
\<close>

theorem later_observations_change_features:
  "chronological leak_dataset \<and>
   feature_at (train_features in_place (take 10 leak_dataset)) 9 FEAT_TOTAL_FIGHTS_DELTA
     = Some 0 \<and>
   feature_at (train_features in_place leak_dataset) 9 FEAT_TOTAL_FIGHTS_DELTA = Some 1"
proof -
  have a: "feature_at (train_features in_place (take 10 leak_dataset)) 9
      FEAT_TOTAL_FIGHTS_DELTA = Some 0"
    by (simp add: train_features_def train_base_count_nat
        qsort_fights_chronological[OF chronological_take[OF leak_dataset_chronological]])
       (simp add: leak_dataset_def feature_at_def ctx_eval feature_eval feature_vector_nth_16)
  have b: "feature_at (train_features in_place leak_dataset) 9 FEAT_TOTAL_FIGHTS_DELTA = Some 1"
    by (simp add: train_features_def train_base_count_nat
        qsort_fights_chronological[OF leak_dataset_chronological])
       (simp add: leak_dataset_def feature_at_def ctx_eval feature_eval feature_vector_nth_16)
  from a b leak_dataset_chronological show ?thesis by simp
qed

subsection \<open>Mirrored augmentation\<close>

lemma mirror_fold:
  assumes "n \<le> B" "length (fst bufs) = 2 * B" "length (snd bufs) = 2 * B"
  shows "length (fst (fold (mirror_step raw labels B) [0..<n] bufs)) = 2 * B \<and>
         length (snd (fold (mirror_step raw labels B) [0..<n] bufs)) = 2 * B \<and>
         (\<forall>i < n.
            fst (fold (mirror_step raw labels B) [0..<n] bufs) ! i =
              map (\<lambda>j. raw ! i ! j) [0..<INPUT_SIZE] \<and>
            fst (fold (mirror_step raw labels B) [0..<n] bufs) ! (i + B) =
              map (\<lambda>j. - (raw ! i ! j)) [0..<INPUT_SIZE] \<and>
            snd (fold (mirror_step raw labels B) [0..<n] bufs) ! i = labels ! i \<and>
            snd (fold (mirror_step raw labels B) [0..<n] bufs) ! (i + B) = 1 - labels ! i)"
  using assms(1)
proof (induction n)
  case 0
  with assms show ?case by simp
next
  case (Suc n)
  define prev where "prev = fold (mirror_step raw labels B) [0..<n] bufs"
  from Suc have ih:
    "length (fst prev) = 2 * B" "length (snd prev) = 2 * B"
    "\<forall>i < n. fst prev ! i = map (\<lambda>j. raw ! i ! j) [0..<INPUT_SIZE] \<and>
            fst prev ! (i + B) = map (\<lambda>j. - (raw ! i ! j)) [0..<INPUT_SIZE] \<and>
            snd prev ! i = labels ! i \<and>
            snd prev ! (i + B) = 1 - labels ! i"
    by (simp_all add: prev_def)
  have step: "fold (mirror_step raw labels B) [0..<Suc n] bufs = mirror_step raw labels B n prev"
    by (simp add: prev_def)
  from Suc.prems have nB: "n < B" by simp
  show ?case
    unfolding step using ih nB
    by (auto simp: mirror_step_def nth_list_update less_Suc_eq)
qed

lemma feature_vector_length [simp]: "length (feature_vector f r1 r2 h) = INPUT_SIZE"
  by (simp add: feature_vector_def Let_def)

lemma compute_features_with_length:
  "compute_features_with al f ctx = Inr (feat, c) \<Longrightarrow> length feat = INPUT_SIZE"
  by (auto simp: compute_features_with_def bind_err_Inr Let_def split: prod.splits)

lemma feature_loop_row_length:
  "feature_loop al B i ctx xs = Inr rows \<Longrightarrow> \<forall>r \<in> set rows. length (fst r) = INPUT_SIZE"
proof (induction xs arbitrary: i ctx rows)
  case Nil
  then show ?case by simp
next
  case (Cons f xs)
  from Cons.prems obtain feat c1 c2 rest where
    cf: "compute_features_with al f ctx = Inr (feat, c1)" and
    rl: "feature_loop al B (Suc i) c2 xs = Inr rest" and
    r: "rows = (feat, real_of_int (label f)) # rest"
    by (auto simp: bind_err_Inr split: prod.splits)
  from compute_features_with_length[OF cf] Cons.IH[OF rl] r show ?case by simp
qed

lemma feature_loop_labels_eq:
  "feature_loop al B i ctx xs = Inr rows \<Longrightarrow> map snd rows = map (\<lambda>f. real_of_int (label f)) xs"
proof (induction xs arbitrary: i ctx rows)
  case Nil
  then show ?case by simp
next
  case (Cons f xs)
  then show ?case
    by (auto simp: bind_err_Inr split: prod.splits)
qed

lemma map_nth_full: "length xs = n \<Longrightarrow> map (\<lambda>j. xs ! j) [0..<n] = xs"
  by (auto simp: map_nth)

lemma map_nth_uminus: "length xs = n \<Longrightarrow> map (\<lambda>j. - (xs ! j)) [0..<n] = map uminus (xs :: real list)"
  by (rule nth_equalityI) auto

lemma train_prepare_Some:
  assumes "train_prepare al ma m fights = Inr (Some ts)"
  obtains rows g where
    "feature_loop al (train_base_count (int (length fights))) 0 init_context
       (qsort_fights fights) = Inr rows"
    "0 \<le> train_base_count (int (length fights))"
    "ts_train_base_count ts = nat (train_base_count (int (length fights)))"
    "ts_raw_features ts = map fst rows"
    "ts_labels ts = map snd rows"
    "(ts_aug_raw ts, ts_aug_labels ts) =
       mirror_augment (map fst rows) (map snd rows) (ts_train_base_count ts)
         (map (fst g) [0..<ts_train_base_count ts * 2],
          map (snd g) [0..<ts_train_base_count ts * 2])"
    "ts_model ts = compute_normalization (ts_aug_raw ts) (ts_train_base_count ts * 2) m"
    "ts_data ts = map (\<lambda>i. normalize_features (ts_aug_raw ts ! i) (ts_model ts))
       [0..<ts_train_base_count ts * 2]"
    "ts_val_data ts =
       map (\<lambda>i. normalize_features (ts_raw_features ts ! (ts_train_base_count ts + i)) (ts_model ts))
         [0..<nat (int (length fights) - train_base_count (int (length fights)))]"
    "ts_val_labels ts =
       map (\<lambda>i. ts_labels ts ! (ts_train_base_count ts + i))
         [0..<nat (int (length fights) - train_base_count (int (length fights)))]"
  using assms
  unfolding train_prepare_def Let_def
  by (auto simp: bind_err_Inr split: if_splits option.splits)

lemma length_insert_fight [simp]: "length (insert_fight f fs) = Suc (length fs)"
  by (induction fs) auto

lemma length_qsort_fights [simp]: "length (qsort_fights fs) = length fs"
  by (induction fs) (auto simp: qsort_fights_def)

lemma train_base_count_less: "train_base_count (int n) < int n"
  unfolding train_base_count_nat by auto

lemma train_prepare_augmented:
  assumes "train_prepare al ma m fights = Inr (Some ts)"
  shows "int (ts_train_base_count ts) = train_base_count (int (length fights)) \<and>
         length (ts_raw_features ts) = length fights \<and>
         ts_labels ts = map (\<lambda>f. real_of_int (label f)) (qsort_fights fights) \<and>
         length (ts_aug_raw ts) = 2 * ts_train_base_count ts \<and>
         length (ts_aug_labels ts) = 2 * ts_train_base_count ts \<and>
         length (ts_data ts) = 2 * ts_train_base_count ts \<and>
         (\<forall>i < ts_train_base_count ts.
            ts_aug_raw ts ! i = ts_raw_features ts ! i \<and>
            ts_aug_labels ts ! i = ts_labels ts ! i \<and>
            ts_aug_raw ts ! (i + ts_train_base_count ts) = map uminus (ts_raw_features ts ! i) \<and>
            ts_aug_labels ts ! (i + ts_train_base_count ts) = 1 - ts_labels ts ! i) \<and>
         length (ts_val_data ts) = length fights - ts_train_base_count ts \<and>
         length (ts_val_labels ts) = length fights - ts_train_base_count ts \<and>
         (\<forall>i < length fights - ts_train_base_count ts.
            ts_val_data ts ! i =
              normalize_features (ts_raw_features ts ! (ts_train_base_count ts + i)) (ts_model ts) \<and>
            ts_val_labels ts ! i = ts_labels ts ! (ts_train_base_count ts + i))"
proof -
  define B where "B = ts_train_base_count ts"
  from assms obtain rows g where
    loop: "feature_loop al (train_base_count (int (length fights))) 0 init_context
       (qsort_fights fights) = Inr rows" and
    nonneg: "0 \<le> train_base_count (int (length fights))" and
    tb: "B = nat (train_base_count (int (length fights)))" and
    raw: "ts_raw_features ts = map fst rows" and
    labels: "ts_labels ts = map snd rows" and
    aug: "(ts_aug_raw ts, ts_aug_labels ts) =
       mirror_augment (map fst rows) (map snd rows) B
         (map (fst g) [0..<B * 2], map (snd g) [0..<B * 2])" and
    data: "ts_data ts = map (\<lambda>i. normalize_features (ts_aug_raw ts ! i) (ts_model ts))
       [0..<B * 2]" and
    vd: "ts_val_data ts =
       map (\<lambda>i. normalize_features (ts_raw_features ts ! (B + i)) (ts_model ts))
         [0..<nat (int (length fights) - train_base_count (int (length fights)))]" and
    vl: "ts_val_labels ts =
       map (\<lambda>i. ts_labels ts ! (B + i))
         [0..<nat (int (length fights) - train_base_count (int (length fights)))]"
    unfolding B_def by (rule train_prepare_Some)
  have Bint: "int B = train_base_count (int (length fights))" using tb nonneg by simp
  have vc: "nat (int (length fights) - train_base_count (int (length fights))) = length fights - B"
    using Bint by linarith
  have lrows: "length rows = length fights"
    using feature_loop_length[OF loop] by simp
  have Blt: "B < length fights"
    using train_base_count_less[of "length fights"] Bint by linarith
  have lab: "ts_labels ts = map (\<lambda>f. real_of_int (label f)) (qsort_fights fights)"
    using feature_loop_labels_eq[OF loop] labels by simp
  have rowlen: "\<forall>i < B. length (map fst rows ! i) = INPUT_SIZE"
    using feature_loop_row_length[OF loop] Blt lrows by simp
  note mf = mirror_fold[of B B "(map (fst g) [0..<B * 2], map (snd g) [0..<B * 2])"
      "map fst rows" "map snd rows", folded mirror_augment_def, folded aug]
  have m1: "length (ts_aug_raw ts) = 2 * B" "length (ts_aug_labels ts) = 2 * B"
    and m2: "\<forall>i < B.
        ts_aug_raw ts ! i = map (\<lambda>j. map fst rows ! i ! j) [0..<INPUT_SIZE] \<and>
        ts_aug_raw ts ! (i + B) = map (\<lambda>j. - (map fst rows ! i ! j)) [0..<INPUT_SIZE] \<and>
        ts_aug_labels ts ! i = map snd rows ! i \<and>
        ts_aug_labels ts ! (i + B) = 1 - map snd rows ! i"
    using mf by simp_all
  have pairs: "\<forall>i < B.
      ts_aug_raw ts ! i = ts_raw_features ts ! i \<and>
      ts_aug_labels ts ! i = ts_labels ts ! i \<and>
      ts_aug_raw ts ! (i + B) = map uminus (ts_raw_features ts ! i) \<and>
      ts_aug_labels ts ! (i + B) = 1 - ts_labels ts ! i"
  proof (intro allI impI)
    fix i assume i: "i < B"
    with rowlen have l: "length (map fst rows ! i) = INPUT_SIZE" by simp
    from m2 i map_nth_full[OF l] map_nth_uminus[OF l] raw labels
    show "ts_aug_raw ts ! i = ts_raw_features ts ! i \<and>
      ts_aug_labels ts ! i = ts_labels ts ! i \<and>
      ts_aug_raw ts ! (i + B) = map uminus (ts_raw_features ts ! i) \<and>
      ts_aug_labels ts ! (i + B) = 1 - ts_labels ts ! i"
      by simp
  qed
  have val: "\<forall>i < length fights - B.
      ts_val_data ts ! i = normalize_features (ts_raw_features ts ! (B + i)) (ts_model ts) \<and>
      ts_val_labels ts ! i = ts_labels ts ! (B + i)"
    using vd vl vc by simp
  from Bint lrows raw lab m1 data pairs vd vl vc val show ?thesis
    unfolding B_def[symmetric] by simp
qed

lemma train_base_count_nonneg: "0 < n \<Longrightarrow> 0 \<le> train_base_count (int n)"
  unfolding train_base_count_nat by auto

lemma train_prepare_returns:
  assumes "raw_features_ok ma" "labels_ok ma" "aug_garbage ma \<noteq> None" "data_ok ma" "val_ok ma"
    and "fights \<noteq> []"
  shows "\<exists>ts. train_prepare in_place ma m fights = Inr (Some ts)"
proof -
  from feature_loop_in_place_returns obtain rows where
    loop: "feature_loop in_place (train_base_count (int (length fights))) 0 init_context
      (qsort_fights fights) = Inr rows" by blast
  from assms(6) have n: "0 < length fights" by simp
  from assms(3) obtain g where g: "aug_garbage ma = Some g" by auto
  show ?thesis
    unfolding train_prepare_def Let_def loop
    using assms(1,2,4,5) g train_base_count_less[of "length fights"] train_base_count_nonneg[OF n]
    by (simp add: bind_err_def)
qed

text \<open>
  C3. With every allocation granted, an allocator that never moves a block and at least
  one observation, \<^verbatim>\<open>train\<close> reaches its epoch loop. Whenever it does, with
  train-base size \<open>B\<close> (the boundary of the dataset): the augmented arrays have
  \<open>2 * B\<close> entries; for every \<open>i < B\<close> entry \<open>i\<close> is raw sample \<open>i\<close> with its label,
  and entry \<open>i + B\<close> is the elementwise negation of raw sample \<open>i\<close> with label
  \<open>1 - label\<close>; the validation set has the remaining \<open>N - B\<close> samples, each the
  normalised raw sample \<open>B + i\<close> with its own label, and no mirrored twin.
\<close>

theorem train_mirrored_augmentation:
  "(al = in_place \<and> raw_features_ok ma \<and> labels_ok ma \<and> aug_garbage ma \<noteq> None \<and>
    data_ok ma \<and> val_ok ma \<and> fights \<noteq> [] \<longrightarrow>
      (\<exists>ts. train_prepare al ma m fights = Inr (Some ts))) \<and>
   (\<forall>ts. train_prepare al ma m fights = Inr (Some ts) \<longrightarrow>
     int (ts_train_base_count ts) = train_base_count (int (length fights)) \<and>
     length (ts_raw_features ts) = length fights \<and>
     ts_labels ts = map (\<lambda>f. real_of_int (label f)) (qsort_fights fights) \<and>
     length (ts_aug_raw ts) = 2 * ts_train_base_count ts \<and>
     length (ts_aug_labels ts) = 2 * ts_train_base_count ts \<and>
     length (ts_data ts) = 2 * ts_train_base_count ts \<and>
     (\<forall>i < ts_train_base_count ts.
        ts_aug_raw ts ! i = ts_raw_features ts ! i \<and>
        ts_aug_labels ts ! i = ts_labels ts ! i \<and>
        ts_aug_raw ts ! (i + ts_train_base_count ts) = map uminus (ts_raw_features ts ! i) \<and>
        ts_aug_labels ts ! (i + ts_train_base_count ts) = 1 - ts_labels ts ! i) \<and>
     length (ts_val_data ts) = length fights - ts_train_base_count ts \<and>
     length (ts_val_labels ts) = length fights - ts_train_base_count ts \<and>
     (\<forall>i < length fights - ts_train_base_count ts.
        ts_val_data ts ! i =
          normalize_features (ts_raw_features ts ! (ts_train_base_count ts + i)) (ts_model ts) \<and>
        ts_val_labels ts ! i = ts_labels ts ! (ts_train_base_count ts + i)))"
  using train_prepare_returns[of ma fights m] train_prepare_augmented[of al ma m fights]
  by blast

lemma rematch_prepared:
  "\<exists>ts. train_prepare in_place all_granted fresh_model rematch = Inr (Some ts)"
proof -
  have loop: "feature_loop in_place (train_base_count (int (length rematch))) 0 init_context
      (qsort_fights rematch) = Inr rematch_rows"
    using rematch_run by (simp add: train_features_def)
  have len: "length rematch = 2" by (simp add: rematch_def)
  have tb2: "train_base_count 2 = 1"
    by (simp add: train_base_count_def signed_divide_int_def)
  show ?thesis
    unfolding train_prepare_def Let_def loop
    by (simp add: tb2 len all_granted_def bind_err_def)
qed

lemma rematch_boundary: "train_base_count (int (length rematch)) = 1"
proof -
  have len: "length rematch = 2" by (simp add: rematch_def)
  thus ?thesis by (simp only: train_base_count_nat) simp
qed

theorem train_mirrored_augmentation_witness:
  "\<exists>ts. train_prepare in_place all_granted fresh_model rematch = Inr (Some ts) \<and>
      ts_train_base_count ts = 1 \<and>
      length (ts_aug_raw ts) = 2 \<and>
      ts_aug_raw ts ! 0 = ts_raw_features ts ! 0 \<and>
      ts_aug_raw ts ! 1 = map uminus (ts_raw_features ts ! 0) \<and>
      ts_aug_labels ts ! 1 = 1 - ts_labels ts ! 0 \<and>
      length (ts_val_data ts) = 1"
proof -
  from rematch_prepared obtain ts where
    run: "train_prepare in_place all_granted fresh_model rematch = Inr (Some ts)" ..
  have len: "length rematch = 2" by (simp add: rematch_def)
  note t = train_mirrored_augmentation[of in_place all_granted rematch fresh_model,
      THEN conjunct2, rule_format, OF run]
  from t rematch_boundary have b: "ts_train_base_count ts = 1" by simp
  from t b have "length (ts_aug_raw ts) = 2 \<and>
      ts_aug_raw ts ! 0 = ts_raw_features ts ! 0 \<and>
      ts_aug_raw ts ! 1 = map uminus (ts_raw_features ts ! 0) \<and>
      ts_aug_labels ts ! 1 = 1 - ts_labels ts ! 0 \<and>
      length (ts_val_data ts) = 1"
    by (simp add: len)
  with run b show ?thesis by blast
qed

subsection \<open>Normalization\<close>

lemma fold_add_sum: "fold (\<lambda>i s. s + f i) [0..<n] (b::real) = b + (\<Sum>i<n. f i)"
  by (induction n) (simp_all add: algebra_simps)

lemma sigmoid_pos: "0 < sigmoid x"
  by (simp add: sigmoid_def add_pos_pos)

lemma sigmoid_less_1: "sigmoid x < 1"
  by (simp add: sigmoid_def add_pos_pos)

lemma sigmoid_minus: "sigmoid (- x) = 1 - sigmoid x"
proof -
  have "exp x * exp (- x) = 1" by (simp add: exp_minus)
  have p: "1 + exp x \<noteq> 0" "1 + exp (- x) \<noteq> 0"
    using exp_gt_zero[of x] exp_gt_zero[of "- x"] by linarith+
  show ?thesis
    unfolding sigmoid_def using p \<open>exp x * exp (- x) = 1\<close>
    by (simp add: field_simps)
qed

lemma sigmoid_mono: "x \<le> y \<Longrightarrow> sigmoid x \<le> sigmoid y"
  unfolding sigmoid_def
  by (intro divide_left_mono) (auto simp: add_pos_pos)

lemma sigmoid_0: "sigmoid 0 = 1 / 2"
  by (simp add: sigmoid_def)

lemma feature_std_pos: "0 < feature_std a c mu"
proof -
  have "0 < sqrt (if a / c - mu * mu > 0 then a / c - mu * mu else 1 / 10 ^ 8)"
    by simp
  thus ?thesis by (simp add: feature_std_def Let_def)
qed

lemma feature_std_floor: "1 / 10 ^ 8 \<le> feature_std a c mu"
  by (simp add: feature_std_def Let_def)

lemma compute_normalization_std:
  "feat_std (compute_normalization raw count m) =
     map (\<lambda>j. feature_std (snd (feature_sums raw count) ! j) (real count)
                 (fst (feature_sums raw count) ! j / real count)) [0..<INPUT_SIZE]"
  by (simp add: compute_normalization_def Let_def)

lemma compute_normalization_mean:
  "feat_mean (compute_normalization raw count m) =
     map (\<lambda>j. fst (feature_sums raw count) ! j / real count) [0..<INPUT_SIZE]"
  by (simp add: compute_normalization_def Let_def)

lemma normalization_round_trip:
  assumes "length x = INPUT_SIZE" "\<forall>j < INPUT_SIZE. feat_std m ! j \<noteq> 0"
  shows "denormalize_features (normalize_features x m) m = x"
proof (rule nth_equalityI)
  show "length (denormalize_features (normalize_features x m) m) = length x"
    using assms by (simp add: denormalize_features_def)
next
  fix i assume "i < length (denormalize_features (normalize_features x m) m)"
  hence i: "i < INPUT_SIZE" by (simp add: denormalize_features_def)
  with assms(2) have "feat_std m ! i \<noteq> 0" by simp
  with i show "denormalize_features (normalize_features x m) m ! i = x ! i"
    by (simp add: denormalize_features_def normalize_features_def)
qed

text \<open>
  C5. After \<^verbatim>\<open>compute_normalization\<close> on a non-empty sample matrix each of the twenty
  stored standard deviations is strictly positive, and at least \<open>10\<^sup>-\<^sup>8\<close> (the square
  root is taken of the variance, or of \<open>10\<^sup>-\<^sup>8\<close> when the variance is not positive,
  and a root below \<open>10\<^sup>-\<^sup>8\<close> is replaced by 1), so \<^verbatim>\<open>normalize_features\<close> never
  divides by zero; and normalising a feature vector and applying \<open>x * std + mean\<close> with
  the same statistics gives the vector back, in exact arithmetic.
\<close>

theorem normalization_std_positive_round_trip:
  assumes "0 < count" and "count \<le> length raw" and "length x = INPUT_SIZE"
  shows "length (feat_std (compute_normalization raw count m)) = INPUT_SIZE \<and>
         (\<forall>j < INPUT_SIZE.
            0 < feat_std (compute_normalization raw count m) ! j \<and>
            1 / 10 ^ 8 \<le> feat_std (compute_normalization raw count m) ! j) \<and>
         denormalize_features
           (normalize_features x (compute_normalization raw count m))
           (compute_normalization raw count m) = x"
proof -
  have pos: "\<forall>j < INPUT_SIZE.
      0 < feat_std (compute_normalization raw count m) ! j \<and>
      1 / 10 ^ 8 \<le> feat_std (compute_normalization raw count m) ! j"
    using feature_std_pos feature_std_floor
    by (simp add: compute_normalization_std)
  hence "\<forall>j < INPUT_SIZE. feat_std (compute_normalization raw count m) ! j \<noteq> 0"
    by fastforce
  from normalization_round_trip[OF assms(3) this] pos show ?thesis
    by (simp add: compute_normalization_std)
qed

theorem normalization_std_positive_round_trip_witness:
  "(0::nat) < 2 \<and> (2::nat) \<le> length [replicate INPUT_SIZE (1::real), replicate INPUT_SIZE 3] \<and>
   length (replicate INPUT_SIZE (5::real)) = INPUT_SIZE \<and>
   0 < feat_std (compute_normalization [replicate INPUT_SIZE 1, replicate INPUT_SIZE 3] 2
         fresh_model) ! 0 \<and>
   denormalize_features
     (normalize_features (replicate INPUT_SIZE 5)
        (compute_normalization [replicate INPUT_SIZE 1, replicate INPUT_SIZE 3] 2 fresh_model))
     (compute_normalization [replicate INPUT_SIZE 1, replicate INPUT_SIZE 3] 2 fresh_model) =
     replicate INPUT_SIZE 5"
proof -
  have a: "(0::nat) < 2" by simp
  have b: "(2::nat) \<le> length [replicate INPUT_SIZE (1::real), replicate INPUT_SIZE 3]" by simp
  have c: "length (replicate INPUT_SIZE (5::real)) = INPUT_SIZE" by simp
  note t = normalization_std_positive_round_trip[OF a b c, of fresh_model]
  from t have d: "0 < feat_std (compute_normalization
      [replicate INPUT_SIZE 1, replicate INPUT_SIZE 3] 2 fresh_model) ! 0"
    by simp
  from t d show ?thesis by simp
qed

subsection \<open>The fresh network treats mirrored samples alike\<close>

lemma layer_neg:
  assumes "\<forall>i < n. x' ! i = - (x ! i :: real)"
  shows "fold (\<lambda>i s. s + x' ! i * w i) [0..<n] 0 = - fold (\<lambda>i s. s + x ! i * w i) [0..<n] 0"
proof -
  have "(\<Sum>i<n. x' ! i * w i) = (\<Sum>i<n. - (x ! i * w i))"
    using assms by (intro sum.cong) auto
  thus ?thesis by (simp add: fold_add_sum sum_negf)
qed

lemma forward_output:
  "output_act (forward m inp) ! 0 =
     sigmoid (fold (\<lambda>j s. s + hidden2 m (hidden1 m inp) ! j * w3 m ! j ! 0)
                [0..<HIDDEN_2_SIZE] (b3 m ! 0))"
  by (simp add: forward_def Let_def hidden1_def hidden2_def)

lemma hidden1_neg:
  assumes "b1 m = replicate HIDDEN_1_SIZE 0" "length z = INPUT_SIZE"
  shows "\<forall>j < HIDDEN_1_SIZE. hidden1 m (map uminus z) ! j = - (hidden1 m z ! j)"
proof (intro allI impI)
  fix j :: nat assume j: "j < HIDDEN_1_SIZE"
  have "\<forall>i < INPUT_SIZE. map uminus z ! i = - (z ! i)" using assms(2) by simp
  from layer_neg[OF this, of "\<lambda>i. w1 m ! i ! j"] j assms(1)
  show "hidden1 m (map uminus z) ! j = - (hidden1 m z ! j)"
    by (simp add: hidden1_def tanh_act_def)
qed

lemma hidden2_neg:
  assumes "b2 m = replicate HIDDEN_2_SIZE 0" "\<forall>i < HIDDEN_1_SIZE. a' ! i = - (a ! i)"
  shows "\<forall>j < HIDDEN_2_SIZE. hidden2 m a' ! j = - (hidden2 m a ! j)"
proof (intro allI impI)
  fix j :: nat assume j: "j < HIDDEN_2_SIZE"
  from layer_neg[OF assms(2), of "\<lambda>i. w2 m ! i ! j"] j assms(1)
  show "hidden2 m a' ! j = - (hidden2 m a ! j)"
    by (simp add: hidden2_def tanh_act_def)
qed

lemma forward_odd:
  assumes "b1 m = replicate HIDDEN_1_SIZE 0" "b2 m = replicate HIDDEN_2_SIZE 0"
    "b3 m = replicate OUTPUT_SIZE 0" "length z = INPUT_SIZE"
  shows "output_act (forward m (map uminus z)) ! 0 = 1 - output_act (forward m z) ! 0"
proof -
  note h2 = hidden2_neg[OF assms(2) hidden1_neg[OF assms(1,4)]]
  from layer_neg[OF h2, of "\<lambda>j. w3 m ! j ! 0"] assms(3)
  show ?thesis by (simp add: forward_output sigmoid_minus)
qed

lemma cross_entropy_mirror: "cross_entropy (1 - p) (1 - y) = cross_entropy p y"
  by (simp add: cross_entropy_def algebra_simps)

lemma accumulate_fold:
  assumes "n \<le> length s" "length q = length s"
  shows "length (fst (fold (\<lambda>j (s, q). (s[j := s ! j + row ! j], q[j := q ! j + row ! j * row ! j]))
            [0..<n] (s, q))) = length s \<and>
         length (snd (fold (\<lambda>j (s, q). (s[j := s ! j + row ! j], q[j := q ! j + row ! j * row ! j]))
            [0..<n] (s, q))) = length s \<and>
         (\<forall>j < length s.
            fst (fold (\<lambda>j (s, q). (s[j := s ! j + row ! j], q[j := q ! j + row ! j * row ! j]))
              [0..<n] (s, q)) ! j = (if j < n then s ! j + row ! j else s ! j) \<and>
            snd (fold (\<lambda>j (s, q). (s[j := s ! j + row ! j], q[j := q ! j + row ! j * row ! j]))
              [0..<n] (s, q)) ! j = (if j < n then q ! j + row ! j * row ! j else q ! j))"
  using assms(1)
proof (induction n)
  case 0
  with assms(2) show ?case by simp
next
  case (Suc n)
  define prev where "prev = fold (\<lambda>j (s, q). (s[j := s ! j + row ! j], q[j := q ! j + row ! j * row ! j]))
            [0..<n] (s, q)"
  from Suc have ih: "length (fst prev) = length s" "length (snd prev) = length s"
    "\<forall>j < length s. fst prev ! j = (if j < n then s ! j + row ! j else s ! j) \<and>
        snd prev ! j = (if j < n then q ! j + row ! j * row ! j else q ! j)"
    by (simp_all add: prev_def)
  have step: "fold (\<lambda>j (s, q). (s[j := s ! j + row ! j], q[j := q ! j + row ! j * row ! j]))
            [0..<Suc n] (s, q) =
      ((fst prev)[n := fst prev ! n + row ! n], (snd prev)[n := snd prev ! n + row ! n * row ! n])"
    by (simp add: prev_def split: prod.splits)
  from Suc.prems have n: "n < length s" by simp
  show ?case unfolding step using ih n
    by (auto simp: nth_list_update)
qed

lemma accumulate_row_nth:
  assumes "length s = INPUT_SIZE" "length q = INPUT_SIZE"
  shows "length (fst (accumulate_row row (s, q))) = INPUT_SIZE \<and>
         length (snd (accumulate_row row (s, q))) = INPUT_SIZE \<and>
         (\<forall>j < INPUT_SIZE.
            fst (accumulate_row row (s, q)) ! j = s ! j + row ! j \<and>
            snd (accumulate_row row (s, q)) ! j = q ! j + row ! j * row ! j)"
  using accumulate_fold[of INPUT_SIZE s q row] assms
  by (simp add: accumulate_row_def)

lemma feature_sums_nth:
  "length (fst (feature_sums raw count)) = INPUT_SIZE \<and>
   length (snd (feature_sums raw count)) = INPUT_SIZE \<and>
   (\<forall>j < INPUT_SIZE.
      fst (feature_sums raw count) ! j = (\<Sum>i<count. raw ! i ! j) \<and>
      snd (feature_sums raw count) ! j = (\<Sum>i<count. raw ! i ! j * raw ! i ! j))"
proof (induction count)
  case 0
  show ?case by (simp add: feature_sums_def)
next
  case (Suc count)
  have step: "feature_sums raw (Suc count) =
      accumulate_row (raw ! count) (fst (feature_sums raw count), snd (feature_sums raw count))"
    by (simp add: feature_sums_def)
  from accumulate_row_nth[of "fst (feature_sums raw count)" "snd (feature_sums raw count)"
      "raw ! count"] Suc
  show ?case unfolding step by simp
qed

lemma sum_split_add: "(\<Sum>i<B + (n::nat). f i) = (\<Sum>i<B. f i) + (\<Sum>i<n. (f (B + i) :: real))"
  by (induction n) (simp_all add: add.assoc[symmetric])

lemma mirrored_mean_zero:
  assumes "\<forall>i < B. aug ! (i + B) = map uminus (aug ! i) \<and> length (aug ! i) = INPUT_SIZE"
    and "j < INPUT_SIZE"
  shows "feat_mean (compute_normalization aug (B * 2) m) ! j = 0"
proof -
  have "(\<Sum>i<B + B. aug ! i ! j) = (\<Sum>i<B. aug ! i ! j) + (\<Sum>i<B. aug ! (B + i) ! j)"
    by (rule sum_split_add)
  also have "(\<Sum>i<B. aug ! (B + i) ! j) = (\<Sum>i<B. - (aug ! i ! j))"
    using assms by (intro sum.cong) (auto simp: add.commute)
  finally have "(\<Sum>i<B * 2. aug ! i ! j) = 0"
    by (simp add: sum_negf mult_2_right)
  with feature_sums_nth[of aug "B * 2"] assms(2) show ?thesis
    by (simp add: compute_normalization_mean)
qed

lemma train_prepare_model:
  assumes "train_prepare al ma m fights = Inr (Some ts)"
  shows "ts_model ts = compute_normalization (ts_aug_raw ts) (ts_train_base_count ts * 2) m"
    and "ts_data ts = map (\<lambda>i. normalize_features (ts_aug_raw ts ! i) (ts_model ts))
           [0..<ts_train_base_count ts * 2]"
  using assms by (auto elim!: train_prepare_Some)

lemma compute_normalization_biases:
  "b1 (compute_normalization raw count m) = b1 m"
  "b2 (compute_normalization raw count m) = b2 m"
  "b3 (compute_normalization raw count m) = b3 m"
  by (simp_all add: compute_normalization_def Let_def)

lemma init_model_biases:
  "b1 (init_model rand_max rs) = replicate HIDDEN_1_SIZE 0"
  "b2 (init_model rand_max rs) = replicate HIDDEN_2_SIZE 0"
  "b3 (init_model rand_max rs) = replicate OUTPUT_SIZE 0"
  by (simp_all add: init_model_def)

lemma normalize_features_neg:
  assumes "\<forall>j < INPUT_SIZE. feat_mean m ! j = 0" "length x = INPUT_SIZE"
  shows "normalize_features (map uminus x) m = map uminus (normalize_features x m)"
proof (rule nth_equalityI)
  show "length (normalize_features (map uminus x) m) = length (map uminus (normalize_features x m))"
    by (simp add: normalize_features_def)
next
  fix j assume "j < length (normalize_features (map uminus x) m)"
  hence j: "j < INPUT_SIZE" by (simp add: normalize_features_def)
  with assms show "normalize_features (map uminus x) m ! j = map uminus (normalize_features x m) ! j"
    by (simp add: normalize_features_def)
qed

lemma length_normalize_features [simp]: "length (normalize_features x m) = INPUT_SIZE"
  by (simp add: normalize_features_def)

text \<open>
  C4. Let \<^verbatim>\<open>train\<close> start from the model that \<^verbatim>\<open>init_model\<close> leaves (any random
  draws) and reach its epoch loop. Then, in exact arithmetic, every feature mean computed
  from the mirrored set is 0 and the biases are still 0, so the network satisfies
  \<open>forward (- x) = 1 - forward x\<close> for every input; for every \<open>i\<close> below the train-base
  size the normalised samples \<open>i\<close> and \<open>i + B\<close> are negations of each other with
  labels \<open>y\<close> and \<open>1 - y\<close>, their outputs are \<open>p\<close> and \<open>1 - p\<close>, and their
  cross-entropy terms are equal.
\<close>

theorem fresh_network_mirror_symmetry:
  assumes prep: "train_prepare al ma (init_model rand_max rs) fights = Inr (Some ts)"
    and i: "i < ts_train_base_count ts"
  shows "(\<forall>j < INPUT_SIZE. feat_mean (ts_model ts) ! j = 0) \<and>
         (\<forall>x. length x = INPUT_SIZE \<longrightarrow>
            output_act (forward (ts_model ts) (map uminus x)) ! 0 =
              1 - output_act (forward (ts_model ts) x) ! 0) \<and>
         ts_data ts ! (i + ts_train_base_count ts) = map uminus (ts_data ts ! i) \<and>
         ts_aug_labels ts ! (i + ts_train_base_count ts) = 1 - ts_aug_labels ts ! i \<and>
         output_act (forward (ts_model ts) (ts_data ts ! (i + ts_train_base_count ts))) ! 0 =
           1 - output_act (forward (ts_model ts) (ts_data ts ! i)) ! 0 \<and>
         cross_entropy
           (output_act (forward (ts_model ts) (ts_data ts ! (i + ts_train_base_count ts))) ! 0)
           (ts_aug_labels ts ! (i + ts_train_base_count ts)) =
         cross_entropy
           (output_act (forward (ts_model ts) (ts_data ts ! i)) ! 0)
           (ts_aug_labels ts ! i)"
proof -
  define B where "B = ts_train_base_count ts"
  define m where "m = ts_model ts"
  note aug = train_prepare_augmented[OF prep, folded B_def]
  note mod = train_prepare_model[OF prep, folded B_def m_def]
  have Blt: "B < length fights" using aug train_base_count_less[of "length fights"] by linarith
  have rows: "\<forall>k < B. length (ts_raw_features ts ! k) = INPUT_SIZE"
  proof -
    from prep obtain rows where
      loop: "feature_loop al (train_base_count (int (length fights))) 0 init_context
         (qsort_fights fights) = Inr rows" and raw: "ts_raw_features ts = map fst rows"
      by (auto elim!: train_prepare_Some)
    have "length rows = length fights" using feature_loop_length[OF loop] by simp
    with feature_loop_row_length[OF loop] raw Blt show ?thesis by simp
  qed
  have pair: "\<forall>k < B. ts_aug_raw ts ! (k + B) = map uminus (ts_aug_raw ts ! k) \<and>
      length (ts_aug_raw ts ! k) = INPUT_SIZE"
    using aug rows by simp
  have mean0: "\<forall>j < INPUT_SIZE. feat_mean m ! j = 0"
    using mirrored_mean_zero[OF pair] mod(1) by simp
  have bias: "b1 m = replicate HIDDEN_1_SIZE 0" "b2 m = replicate HIDDEN_2_SIZE 0"
    "b3 m = replicate OUTPUT_SIZE 0"
    using mod(1) by (simp_all add: compute_normalization_biases init_model_biases)
  have odd: "\<forall>x. length x = INPUT_SIZE \<longrightarrow>
      output_act (forward m (map uminus x)) ! 0 = 1 - output_act (forward m x) ! 0"
    using forward_odd[OF bias] by blast
  from i have iB: "i < B" by (simp add: B_def)
  have d1: "ts_data ts ! i = normalize_features (ts_aug_raw ts ! i) m"
    using mod(2) iB by simp
  have d2: "ts_data ts ! (i + B) = normalize_features (ts_aug_raw ts ! (i + B)) m"
    using mod(2) iB by simp
  have neg: "ts_data ts ! (i + B) = map uminus (ts_data ts ! i)"
    using d1 d2 pair iB normalize_features_neg[OF mean0] by simp
  have lab: "ts_aug_labels ts ! (i + B) = 1 - ts_aug_labels ts ! i"
    using aug iB by simp
  have out: "output_act (forward m (ts_data ts ! (i + B))) ! 0 =
      1 - output_act (forward m (ts_data ts ! i)) ! 0"
    using odd neg d1 by simp
  have loss: "cross_entropy (output_act (forward m (ts_data ts ! (i + B))) ! 0)
        (ts_aug_labels ts ! (i + B)) =
      cross_entropy (output_act (forward m (ts_data ts ! i)) ! 0) (ts_aug_labels ts ! i)"
    unfolding out lab by (rule cross_entropy_mirror)
  from mean0 odd neg lab out loss show ?thesis
    unfolding B_def m_def by blast
qed

theorem fresh_network_mirror_symmetry_witness:
  "\<exists>ts. train_prepare in_place all_granted (init_model 2147483647 (\<lambda>k. int k)) rematch
        = Inr (Some ts) \<and>
      0 < ts_train_base_count ts \<and>
      ts_data ts ! (0 + ts_train_base_count ts) = map uminus (ts_data ts ! 0) \<and>
      output_act (forward (ts_model ts) (ts_data ts ! (0 + ts_train_base_count ts))) ! 0 =
        1 - output_act (forward (ts_model ts) (ts_data ts ! 0)) ! 0 \<and>
      cross_entropy
        (output_act (forward (ts_model ts) (ts_data ts ! (0 + ts_train_base_count ts))) ! 0)
        (ts_aug_labels ts ! (0 + ts_train_base_count ts)) =
      cross_entropy
        (output_act (forward (ts_model ts) (ts_data ts ! 0)) ! 0)
        (ts_aug_labels ts ! 0)"
proof -
  from rematch_prepared obtain ts where
    run: "train_prepare in_place all_granted (init_model 2147483647 (\<lambda>k. int k)) rematch
      = Inr (Some ts)"
    unfolding fresh_model_def ..
  from train_prepare_augmented[OF run] rematch_boundary
  have b: "0 < ts_train_base_count ts" by simp
  from fresh_network_mirror_symmetry[OF run b] run b show ?thesis by blast
qed
subsection \<open>Long double arithmetic\<close>

lemma round_even_ge: "of_int n \<le> r \<Longrightarrow> n \<le> round_even r"
proof -
  assume "of_int n \<le> r"
  hence "n \<le> \<lfloor>r\<rfloor>" by (simp add: le_floor_iff)
  thus ?thesis unfolding round_even_def Let_def by auto
qed

lemma round_even_le: "r \<le> of_int n \<Longrightarrow> round_even r \<le> n"
proof -
  assume a: "r \<le> of_int n"
  show ?thesis
  proof (cases "r = of_int n")
    case True
    thus ?thesis unfolding round_even_def Let_def by simp
  next
    case False
    with a have "r < of_int n" by simp
    hence "\<lfloor>r\<rfloor> < n" by (simp add: floor_less_iff)
    thus ?thesis unfolding round_even_def Let_def by auto
  qed
qed

lemma round_even_near:
  assumes "0 \<le> t" "t \<le> 1 / 2" "even n"
  shows "round_even (of_int n + t) = n"
proof -
  have f: "\<lfloor>of_int n + t\<rfloor> = n" using assms by (simp add: floor_eq_iff)
  show ?thesis unfolding round_even_def Let_def f using assms by auto
qed

lemma log2_bounds:
  assumes "0 < x"
  shows "2 powr of_int \<lfloor>log 2 x\<rfloor> \<le> x" "x < 2 powr (of_int \<lfloor>log 2 x\<rfloor> + 1)"
proof -
  have "of_int \<lfloor>log 2 x\<rfloor> \<le> log 2 x" by simp
  thus "2 powr of_int \<lfloor>log 2 x\<rfloor> \<le> x"
    using assms le_log_iff[of 2 x "of_int \<lfloor>log 2 x\<rfloor>"] by simp
  have "log 2 x < of_int \<lfloor>log 2 x\<rfloor> + 1" by linarith
  thus "x < 2 powr (of_int \<lfloor>log 2 x\<rfloor> + 1)"
    using assms log_less_iff[of 2 x "of_int \<lfloor>log 2 x\<rfloor> + 1"] by simp
qed

lemma round_ld_bounds:
  assumes "0 < x"
  shows "2 powr of_int \<lfloor>log 2 x\<rfloor> \<le> round_ld x"
    and "round_ld x \<le> 2 powr (of_int \<lfloor>log 2 x\<rfloor> + 1)"
proof -
  define e where "e = \<lfloor>log 2 x\<rfloor>"
  define u :: real where "u = 2 powr (of_int e - 63)"
  have u: "0 < u" by (simp add: u_def)
  have r: "round_ld x = of_int (round_even (x / u)) * u"
    using assms by (simp add: round_ld_def Let_def u_def e_def)
  have lo: "2 powr of_int e \<le> x" and hi: "x < 2 powr (of_int e + 1)"
    using log2_bounds[OF assms] by (simp_all add: e_def)
  have a: "2 powr of_int e = 2 ^ 63 * u"
    by (simp add: u_def powr_diff)
  have b: "2 powr (of_int e + 1) = 2 ^ 64 * u"
    by (simp add: u_def powr_diff powr_add)
  have "of_int (2 ^ 63) \<le> x / u" using lo a u by (simp add: field_simps)
  hence "(2 ^ 63 :: int) \<le> round_even (x / u)" by (rule round_even_ge)
  hence "(of_int (2 ^ 63) :: real) \<le> of_int (round_even (x / u))"
    by (simp only: of_int_le_iff)
  hence "(2 ^ 63 :: real) \<le> of_int (round_even (x / u))" by simp
  hence "2 ^ 63 * u \<le> of_int (round_even (x / u)) * u" using u by simp
  thus "2 powr of_int \<lfloor>log 2 x\<rfloor> \<le> round_ld x" using r a by (simp add: e_def)
  have "x / u \<le> of_int (2 ^ 64)" using hi b u by (simp add: field_simps)
  hence "round_even (x / u) \<le> (2 ^ 64 :: int)" by (rule round_even_le)
  hence "(of_int (round_even (x / u)) :: real) \<le> of_int (2 ^ 64)"
    by (simp only: of_int_le_iff)
  hence "of_int (round_even (x / u)) \<le> (2 ^ 64 :: real)" by simp
  hence "of_int (round_even (x / u)) * u \<le> 2 ^ 64 * u" using u by simp
  thus "round_ld x \<le> 2 powr (of_int \<lfloor>log 2 x\<rfloor> + 1)" using r b by (simp add: e_def)
qed

lemma round_ld_pos: "0 < x \<Longrightarrow> 0 < round_ld x"
  using round_ld_bounds(1)[of x] by (simp add: less_le_trans[of 0 "2 powr _"])

lemma round_ld_nonneg: "0 \<le> x \<Longrightarrow> 0 \<le> round_ld x"
  using round_ld_pos[of x] by (cases "x = 0") (simp_all add: round_ld_def)

lemma round_ld_ge_powr:
  assumes "2 powr of_int k \<le> x"
  shows "2 powr of_int k \<le> round_ld x"
proof -
  have x: "0 < x" using assms by (rule less_le_trans[rotated]) simp
  have "of_int k \<le> log 2 x" using assms x le_log_iff[of 2 x "of_int k"] by simp
  hence "k \<le> \<lfloor>log 2 x\<rfloor>" by (simp add: le_floor_iff)
  hence "(of_int k :: real) \<le> of_int \<lfloor>log 2 x\<rfloor>" by (simp only: of_int_le_iff)
  hence "(2::real) powr of_int k \<le> 2 powr of_int \<lfloor>log 2 x\<rfloor>"
    by (rule powr_mono) simp
  with round_ld_bounds(1)[OF x] show ?thesis by linarith
qed

lemma round_ld_le_powr:
  assumes "0 < x" "x < 2 powr of_int k"
  shows "round_ld x \<le> 2 powr of_int k"
proof -
  have "log 2 x < of_int k" using assms log_less_iff[of 2 x "of_int k"] by simp
  hence "\<lfloor>log 2 x\<rfloor> < k" by (simp add: floor_less_iff)
  hence "\<lfloor>log 2 x\<rfloor> + 1 \<le> k" by simp
  hence "(of_int \<lfloor>log 2 x\<rfloor> :: real) + 1 \<le> of_int k"
    using of_int_le_iff[of "\<lfloor>log 2 x\<rfloor> + 1" k, where ?'a = real] by simp
  hence "(2::real) powr (of_int \<lfloor>log 2 x\<rfloor> + 1) \<le> 2 powr of_int k"
    by (rule powr_mono) simp
  with round_ld_bounds(2)[OF assms(1)] show ?thesis by linarith
qed

lemma round_ld_ge_1: "1 \<le> x \<Longrightarrow> 1 \<le> round_ld x"
  using round_ld_ge_powr[of 0 x] by simp

lemma round_ld_1_plus:
  assumes "0 \<le> t" "t \<le> 1 / 2 ^ 64"
  shows "round_ld (1 + t) = 1"
proof -
  have l0: "0 \<le> log 2 (1 + t)" using assms by simp
  have "1 + t < 2" using assms(2) by (rule le_less_trans[OF add_left_mono]) simp
  hence l1: "log 2 (1 + t) < 1" using assms(1) by (simp add: log_less_iff)
  have e: "\<lfloor>log 2 (1 + t)\<rfloor> = 0" using l0 l1 by (simp add: floor_eq_iff)
  have "(2::real) powr (- 63) = 1 / 2 powr 63" by (rule powr_minus_divide)
  also have "(2::real) powr 63 = 2 ^ 63" by (rule powr_numeral) simp
  finally have u: "(2::real) powr (- 63) = 1 / 2 ^ 63" .
  have q: "(1 + t) / (1 / 2 ^ 63) = of_int (2 ^ 63) + t * 2 ^ 63" by (simp add: algebra_simps)
  have "t * 2 ^ 63 \<le> 1 / 2 ^ 64 * 2 ^ 63" using assms(2) by (rule mult_right_mono) simp
  hence h: "t * 2 ^ 63 \<le> 1 / 2" by simp
  have r: "round_even ((1 + t) / (1 / 2 ^ 63)) = 2 ^ 63"
    unfolding q by (rule round_even_near) (use assms h in simp_all)
  have nz: "1 + t \<noteq> 0" using assms(1) by simp
  have a: "\<bar>1 + t\<bar> = 1 + t" using assms(1) by simp
  show ?thesis
    unfolding round_ld_def Let_def a e using nz
    by (simp only: if_False of_int_0 diff_0 u r) simp
qed

lemma round_ld_1: "round_ld 1 = 1"
  using round_ld_1_plus[of 0] by simp

lemma round_ld_le_1:
  assumes "0 \<le> x" "x \<le> 1"
  shows "round_ld x \<le> 1"
proof -
  consider "x = 0" | "x = 1" | "0 < x" "x < 1" using assms by fastforce
  thus ?thesis
  proof cases
    case 1 thus ?thesis by (simp add: round_ld_def)
  next
    case 2 thus ?thesis by (simp add: round_ld_1)
  next
    case 3 thus ?thesis using round_ld_le_powr[of x 0] by simp
  qed
qed

lemma exp_45: "(2 ^ 64 :: real) < exp 45"
proof -
  have "1 + (1 / 4) + (1 / 4)\<^sup>2 / 2 \<le> exp (1 / 4 :: real)"
    by (rule exp_lower_Taylor_quadratic) simp
  hence q: "(41 / 32 :: real) \<le> exp (1 / 4)" by (simp add: power2_eq_square)
  have "(2 ^ 64 :: real) < (41 / 32) ^ 180" by (simp add: power_divide)
  also have "\<dots> \<le> exp (1 / 4) ^ 180" using q by (rule power_mono) simp
  also have "\<dots> = exp (of_nat 180 * (1 / 4))" by (simp only: exp_of_nat_mult)
  also have "\<dots> = exp 45" by simp
  finally show ?thesis .
qed

lemma exp_minus_small:
  assumes "45 \<le> (s::real)"
  shows "exp (- s) < 1 / 2 ^ 64"
proof -
  have "(2 ^ 64 :: real) < exp 45" by (rule exp_45)
  also have "\<dots> \<le> exp s" using assms by simp
  finally have "2 ^ 64 < exp s" .
  hence "1 / exp s < 1 / 2 ^ 64" by (simp add: field_simps)
  thus ?thesis unfolding exp_minus inverse_eq_divide .
qed

lemma LDBL_MAX_EXP_ge: "64 \<le> LDBL_MAX_EXP"
  by (simp add: LDBL_MAX_EXP_def)

lemma LDBL_MAX_pos: "1 \<le> LDBL_MAX"
proof -
  have "(1::real) \<le> 2 ^ 64 - 1" by simp
  moreover have "(1::real) \<le> 2 ^ (LDBL_MAX_EXP - 64)" by (rule one_le_power) simp
  ultimately have "(1::real) * 1 \<le> (2 ^ 64 - 1) * 2 ^ (LDBL_MAX_EXP - 64)"
    by (rule mult_mono) simp_all
  thus ?thesis by (simp only: LDBL_MAX_def mult_1)
qed

lemma LDBL_MAX_less: "LDBL_MAX < 2 ^ LDBL_MAX_EXP"
proof -
  have "(2 ^ 64 - 1) * 2 ^ (LDBL_MAX_EXP - 64) < (2 ^ 64 :: real) * 2 ^ (LDBL_MAX_EXP - 64)"
    by (rule mult_strict_right_mono) simp_all
  also have "\<dots> = 2 ^ (64 + (LDBL_MAX_EXP - 64))" by (simp only: power_add)
  also have "64 + (LDBL_MAX_EXP - 64) = LDBL_MAX_EXP"
    using LDBL_MAX_EXP_ge by (rule le_add_diff_inverse)
  finally show ?thesis by (simp only: LDBL_MAX_def)
qed

lemma ld_small:
  assumes "0 \<le> x" "x \<le> 1"
  shows "ld x = Some (round_ld x)"
  using round_ld_nonneg[OF assms(1)] round_ld_le_1[OF assms] LDBL_MAX_pos
  by (simp add: ld_def Let_def)

lemma sigmoid_ld_saturates_high:
  assumes "45 \<le> s"
  shows "sigmoid_ld s = 1"
proof -
  have small: "exp (- s) < 1 / 2 ^ 64" using assms by (rule exp_minus_small)
  have "(2::real) powr (- 64) = 1 / 2 powr 64" by (rule powr_minus_divide)
  also have "(2::real) powr 64 = 2 ^ 64" by (rule powr_numeral) simp
  finally have "(2::real) powr (- 64) = 1 / 2 ^ 64" .
  hence p: "(2::real) powr of_int (- 64) = 1 / 2 ^ 64" by (simp only: of_int_minus of_int_numeral)
  have "round_ld (exp (- s)) \<le> 2 powr of_int (- 64)"
    by (rule round_ld_le_powr) (use small p in simp_all)
  hence e64: "round_ld (exp (- s)) \<le> 1 / 2 ^ 64" using p by simp
  have e0: "0 \<le> round_ld (exp (- s))" by (rule round_ld_nonneg) simp
  have "exp (- s) \<le> 1" using assms by simp
  hence a: "ld (exp (- s)) = Some (round_ld (exp (- s)))" by (intro ld_small) simp_all
  have r1: "round_ld (1 + round_ld (exp (- s))) = 1" using e0 e64 by (rule round_ld_1_plus)
  have b: "ld (1 + round_ld (exp (- s))) = Some 1"
    using r1 LDBL_MAX_pos by (simp add: ld_def Let_def)
  show ?thesis by (simp add: sigmoid_ld_def a b round_ld_1)
qed

lemma sigmoid_ld_saturates_low:
  assumes "s \<le> - real LDBL_MAX_EXP"
  shows "sigmoid_ld s = 0"
proof -
  have "(2::real) \<le> exp 1" using exp_ge_add_one_self[of 1] by simp
  hence "(2::real) ^ LDBL_MAX_EXP \<le> exp 1 ^ LDBL_MAX_EXP" by (rule power_mono) simp
  also have "\<dots> = exp (of_nat LDBL_MAX_EXP * 1)" by (simp only: exp_of_nat_mult)
  also have "\<dots> \<le> exp (- s)" using assms by simp
  finally have "(2::real) ^ LDBL_MAX_EXP \<le> exp (- s)" .
  moreover have p: "(2::real) powr of_int (int LDBL_MAX_EXP) = 2 ^ LDBL_MAX_EXP"
    using powr_realpow[of 2 LDBL_MAX_EXP] by simp
  ultimately have "2 powr of_int (int LDBL_MAX_EXP) \<le> exp (- s)" by simp
  hence "2 powr of_int (int LDBL_MAX_EXP) \<le> round_ld (exp (- s))" by (rule round_ld_ge_powr)
  with LDBL_MAX_less p have big: "LDBL_MAX < round_ld (exp (- s))" by simp
  hence "LDBL_MAX < \<bar>round_ld (exp (- s))\<bar>" by simp
  hence "ld (exp (- s)) = None" by (simp add: ld_def Let_def)
  thus ?thesis by (simp add: sigmoid_ld_def)
qed

lemma sigmoid_ld_range: "0 \<le> sigmoid_ld s \<and> sigmoid_ld s \<le> 1"
proof (cases "ld (exp (- s))")
  case None
  thus ?thesis by (simp add: sigmoid_ld_def)
next
  case (Some e)
  hence e: "e = round_ld (exp (- s))" by (simp add: ld_def Let_def split: if_splits)
  have e0: "0 \<le> e" unfolding e by (rule round_ld_nonneg) simp
  show ?thesis
  proof (cases "ld (1 + e)")
    case None
    with Some show ?thesis by (simp add: sigmoid_ld_def)
  next
    case d: (Some d)
    hence "d = round_ld (1 + e)" by (simp add: ld_def Let_def split: if_splits)
    hence d1: "1 \<le> d" using e0 round_ld_ge_1[of "1 + e"] by simp
    hence "0 \<le> 1 / d" "1 / d \<le> 1" by simp_all
    hence "0 \<le> round_ld (1 / d)" "round_ld (1 / d) \<le> 1"
      by (simp_all add: round_ld_nonneg round_ld_le_1)
    with Some d show ?thesis by (simp add: sigmoid_ld_def)
  qed
qed

lemma round_even_minus: "round_even (- r) = - round_even r"
proof (cases "r = of_int \<lfloor>r\<rfloor>")
  case True
  then obtain n where r: "r = of_int n" ..
  have "- r = of_int (- n)" using r by simp
  hence "\<lfloor>- r\<rfloor> = - n" by (simp only: floor_of_int)
  thus ?thesis using r by (simp add: round_even_def Let_def)
next
  case False
  have "\<lceil>r\<rceil> = \<lfloor>r\<rfloor> + 1" by (subst ceiling_altdef) (simp only: False if_False)
  hence f: "\<lfloor>- r\<rfloor> = - \<lfloor>r\<rfloor> - 1" by (simp only: floor_minus)
  have "of_int \<lfloor>r\<rfloor> \<noteq> r" using False by (rule not_sym)
  hence lt: "of_int \<lfloor>r\<rfloor> < r"
    by (rule order.not_eq_order_implies_strict) (rule of_int_floor_le)
  show ?thesis unfolding round_even_def Let_def f using lt by auto
qed

lemma round_ld_minus: "round_ld (- x) = - round_ld x"
  by (simp add: round_ld_def Let_def round_even_minus)

lemma round_ld_abs_le: "\<bar>round_ld x\<bar> \<le> 2 * \<bar>x\<bar>"
proof -
  have pos: "\<bar>round_ld y\<bar> \<le> 2 * \<bar>y\<bar>" if "0 < y" for y
  proof -
    have "round_ld y \<le> 2 powr (of_int \<lfloor>log 2 y\<rfloor> + 1)" using that by (rule round_ld_bounds)
    also have "\<dots> = 2 * 2 powr of_int \<lfloor>log 2 y\<rfloor>" by (simp add: powr_add)
    also have "\<dots> \<le> 2 * y" using log2_bounds(1)[OF that] by simp
    finally show ?thesis using round_ld_pos[OF that] that by simp
  qed
  consider "x = 0" | "0 < x" | "0 < - x" by linarith
  thus ?thesis
  proof cases
    case 1 thus ?thesis by (simp add: round_ld_def)
  next
    case 2 thus ?thesis by (rule pos)
  next
    case 3
    from pos[OF this] show ?thesis by (simp add: round_ld_minus)
  qed
qed

lemma ld_Some:
  assumes "2 * \<bar>x\<bar> \<le> LDBL_MAX"
  shows "ld x = Some (round_ld x)"
  using assms round_ld_abs_le[of x] by (simp add: ld_def Let_def)

lemma tanh_ld_range: "\<bar>tanh_ld x\<bar> \<le> 1"
proof -
  have t: "\<bar>tanh x\<bar> \<le> 1" using tanh_real_bounds[of x] by (simp add: abs_le_iff)
  show ?thesis
  proof (cases "0 \<le> tanh x")
    case True
    with t have "round_ld (tanh x) \<le> 1" "0 \<le> round_ld (tanh x)"
      by (simp_all add: round_ld_le_1 round_ld_nonneg)
    thus ?thesis by (simp add: tanh_ld_def)
  next
    case False
    with t have "round_ld (- tanh x) \<le> 1" "0 \<le> round_ld (- tanh x)"
      by (simp_all add: round_ld_le_1 round_ld_nonneg)
    thus ?thesis by (simp add: tanh_ld_def round_ld_minus)
  qed
qed

lemma mac_ld_Some:
  assumes "\<bar>s\<bar> \<le> S" "\<bar>a * w\<bar> \<le> C" "4 * S + 4 * C \<le> LDBL_MAX"
  shows "\<exists>s'. mac_ld a w (Some s) = Some s' \<and> \<bar>s'\<bar> \<le> 2 * S + 4 * C"
proof -
  define p where "p = a * w"
  have pC: "\<bar>p\<bar> \<le> C" using assms(2) by (simp add: p_def)
  have S0: "0 \<le> S" using assms(1) by linarith
  have C0: "0 \<le> C" using pC by linarith
  have "2 * \<bar>p\<bar> \<le> 2 * C" using pC by simp
  also have "\<dots> \<le> LDBL_MAX" using assms(3) S0 C0 by linarith
  finally have l1: "ld p = Some (round_ld p)" by (rule ld_Some)
  have "\<bar>round_ld p\<bar> \<le> 2 * \<bar>p\<bar>" by (rule round_ld_abs_le)
  also have "\<dots> \<le> 2 * C" using pC by simp
  finally have pb: "\<bar>round_ld p\<bar> \<le> 2 * C" .
  have t: "\<bar>s + round_ld p\<bar> \<le> S + 2 * C" using assms(1) pb by linarith
  hence t2: "2 * \<bar>s + round_ld p\<bar> \<le> 2 * S + 4 * C" by simp
  also have "\<dots> \<le> LDBL_MAX" using assms(3) S0 by linarith
  finally have l2: "ld (s + round_ld p) = Some (round_ld (s + round_ld p))" by (rule ld_Some)
  have "\<bar>round_ld (s + round_ld p)\<bar> \<le> 2 * \<bar>s + round_ld p\<bar>" by (rule round_ld_abs_le)
  hence "\<bar>round_ld (s + round_ld p)\<bar> \<le> 2 * S + 4 * C" using t2 by (rule order_trans)
  with l1 l2 show ?thesis by (simp add: mac_ld_def p_def)
qed

lemma fold_mac_ld_Some:
  assumes "\<forall>i < n. \<bar>inp ! i * w i\<bar> \<le> C" "\<bar>b\<bar> \<le> C" "8 ^ n * C \<le> LDBL_MAX"
  shows "k \<le> n \<Longrightarrow>
     \<exists>s. fold (\<lambda>i acc. mac_ld (inp ! i) (w i) acc) [0..<k] (Some b) = Some s \<and> \<bar>s\<bar> \<le> 8 ^ k * C"
proof (induction k)
  case 0
  thus ?case using assms(2) by simp
next
  case (Suc k)
  then obtain s where
    s: "fold (\<lambda>i acc. mac_ld (inp ! i) (w i) acc) [0..<k] (Some b) = Some s" and
    sb: "\<bar>s\<bar> \<le> 8 ^ k * C" by auto
  define D where "D = 8 ^ k * C"
  have C: "0 \<le> C" using assms(2) by linarith
  have kn: "k < n" using Suc.prems by simp
  hence a: "\<bar>inp ! k * w k\<bar> \<le> C" using assms(1) by simp
  have "(8::real) ^ Suc k \<le> 8 ^ n" using kn by (intro power_increasing) simp_all
  hence "8 ^ Suc k * C \<le> 8 ^ n * C" using C by (rule mult_right_mono)
  hence "8 ^ Suc k * C \<le> LDBL_MAX" using assms(3) by (rule order_trans)
  moreover have e: "8 ^ Suc k * C = 8 * D" by (simp add: D_def)
  ultimately have room: "8 * D \<le> LDBL_MAX" by simp
  have "1 * C \<le> 8 ^ k * C" by (rule mult_right_mono) (use C in simp_all)
  hence one: "C \<le> D" by (simp add: D_def)
  have r: "4 * D + 4 * C \<le> LDBL_MAX" using room one C by linarith
  from mac_ld_Some[OF sb[folded D_def] a r] obtain s' where
    m: "mac_ld (inp ! k) (w k) (Some s) = Some s'" and b': "\<bar>s'\<bar> \<le> 2 * D + 4 * C"
    by blast
  have "2 * D + 4 * C \<le> 8 * D" using one C by linarith
  with b' have "\<bar>s'\<bar> \<le> 8 * D" by (rule order_trans)
  hence "\<bar>s'\<bar> \<le> 8 ^ Suc k * C" by (simp only: e)
  with s m show ?case by simp
qed

lemma those_map_Some:
  "(\<And>x. x \<in> set xs \<Longrightarrow> f x \<noteq> None) \<Longrightarrow> those (map f xs) = Some (map (\<lambda>x. the (f x)) xs)"
  by (induction xs) force+

lemma neuron_ld_Some:
  assumes "\<forall>i < n. \<bar>inp ! i * w i\<bar> \<le> C" "\<bar>b\<bar> \<le> C" "8 ^ n * C \<le> LDBL_MAX"
  shows "\<exists>s. neuron_ld act inp w b n = Some (act s)"
  using fold_mac_ld_Some[OF assms, of n] by (auto simp: neuron_ld_def)

lemma layer_ld_Some:
  assumes inp: "\<forall>i < n. \<bar>inp ! i\<bar> \<le> X"
    and w: "\<forall>i < n. \<forall>j < k. \<bar>w i j\<bar> \<le> W"
    and b: "\<forall>j < k. \<bar>b j\<bar> \<le> W"
    and C: "X * W \<le> C" "W \<le> C" "8 ^ n * C \<le> LDBL_MAX"
  shows "\<exists>ys. those (map (\<lambda>j. neuron_ld act inp (\<lambda>i. w i j) (b j) n) [0..<k]) = Some ys \<and>
           length ys = k \<and> (\<forall>j < k. \<exists>s. ys ! j = act s)"
proof -
  let ?f = "\<lambda>j. neuron_ld act inp (\<lambda>i. w i j) (b j) n"
  have each: "\<exists>s. ?f j = Some (act s)" if j: "j < k" for j
  proof (rule neuron_ld_Some[where C = C])
    show "\<forall>i < n. \<bar>inp ! i * w i j\<bar> \<le> C"
    proof (intro allI impI)
      fix i assume i: "i < n"
      have "\<bar>inp ! i * w i j\<bar> = \<bar>inp ! i\<bar> * \<bar>w i j\<bar>" by (rule abs_mult)
      also have "\<dots> \<le> X * W" using inp w i j by (intro mult_mono) auto
      finally show "\<bar>inp ! i * w i j\<bar> \<le> C" using C(1) by simp
    qed
    show "\<bar>b j\<bar> \<le> C" using b j C(2) by force
    show "8 ^ n * C \<le> LDBL_MAX" by (rule C(3))
  qed
  hence "\<And>x. x \<in> set [0..<k] \<Longrightarrow> ?f x \<noteq> None" by force
  hence t: "those (map ?f [0..<k]) = Some (map (\<lambda>x. the (?f x)) [0..<k])"
    by (rule those_map_Some)
  have "\<forall>j < k. \<exists>s. map (\<lambda>x. the (?f x)) [0..<k] ! j = act s"
    using each by force
  with t show ?thesis by simp
qed

lemma pow2_le_LDBL_MAX:
  assumes "n \<le> LDBL_MAX_EXP - 64"
  shows "2 ^ n \<le> LDBL_MAX"
proof -
  have "(2::real) ^ n \<le> 2 ^ (LDBL_MAX_EXP - 64)" using assms by (intro power_increasing) simp_all
  also have "\<dots> = 1 * 2 ^ (LDBL_MAX_EXP - 64)" by simp
  also have "\<dots> \<le> (2 ^ 64 - 1) * 2 ^ (LDBL_MAX_EXP - 64)" by (rule mult_right_mono) simp_all
  finally show ?thesis by (simp only: LDBL_MAX_def)
qed

lemma forward_ld_Some:
  assumes "magnitudes_below W m inp" "1 \<le> W" "8 ^ 64 * (W * W) \<le> LDBL_MAX"
  shows "\<exists>m'. forward_ld m inp = Some m'"
proof -
  have W0: "0 \<le> W" using assms(2) by simp
  have WW: "W \<le> W * W" using assms(2) by (simp add: mult_le_cancel_left1)
  have WW0: "0 \<le> W * W" using W0 by simp
  have room: "8 ^ n * (W * W) \<le> LDBL_MAX" if "n \<le> 64" for n
  proof -
    have "(8::real) ^ n \<le> 8 ^ 64" using that by (intro power_increasing) simp_all
    hence "8 ^ n * (W * W) \<le> 8 ^ 64 * (W * W)" using WW0 by (rule mult_right_mono)
    thus ?thesis using assms(3) by (rule order_trans)
  qed
  from assms(1) have
    a1: "\<forall>i < INPUT_SIZE. \<bar>inp ! i\<bar> \<le> W" and
    a2: "\<forall>i < INPUT_SIZE. \<forall>j < HIDDEN_1_SIZE. \<bar>w1 m ! i ! j\<bar> \<le> W" and
    a3: "\<forall>j < HIDDEN_1_SIZE. \<bar>b1 m ! j\<bar> \<le> W" and
    a4: "\<forall>i < HIDDEN_1_SIZE. \<forall>j < HIDDEN_2_SIZE. \<bar>w2 m ! i ! j\<bar> \<le> W" and
    a5: "\<forall>j < HIDDEN_2_SIZE. \<bar>b2 m ! j\<bar> \<le> W" and
    a6: "\<forall>i < HIDDEN_2_SIZE. \<forall>j < OUTPUT_SIZE. \<bar>w3 m ! i ! j\<bar> \<le> W" and
    a7: "\<forall>j < OUTPUT_SIZE. \<bar>b3 m ! j\<bar> \<le> W"
    by (simp_all add: magnitudes_below_def)
  from layer_ld_Some[where act = tanh_ld, OF a1 a2 a3 order_refl WW room[of INPUT_SIZE]]
  obtain h1' where
    l1: "those (map (\<lambda>j. neuron_ld tanh_ld inp (\<lambda>i. w1 m ! i ! j) (b1 m ! j) INPUT_SIZE)
           [0..<HIDDEN_1_SIZE]) = Some h1'" and
    h1: "\<forall>j < HIDDEN_1_SIZE. \<exists>s. h1' ! j = tanh_ld s" by auto
  have b1: "\<forall>i < HIDDEN_1_SIZE. \<bar>h1' ! i\<bar> \<le> 1" using h1 tanh_ld_range by force
  have one: "1 * W \<le> W * W" using WW by simp
  from layer_ld_Some[where act = tanh_ld, OF b1 a4 a5 one WW room[of HIDDEN_1_SIZE]]
  obtain h2' where
    l2: "those (map (\<lambda>j. neuron_ld tanh_ld h1' (\<lambda>i. w2 m ! i ! j) (b2 m ! j) HIDDEN_1_SIZE)
           [0..<HIDDEN_2_SIZE]) = Some h2'" and
    h2: "\<forall>j < HIDDEN_2_SIZE. \<exists>s. h2' ! j = tanh_ld s" by auto
  have b2: "\<forall>i < HIDDEN_2_SIZE. \<bar>h2' ! i\<bar> \<le> 1" using h2 tanh_ld_range by force
  from layer_ld_Some[where act = sigmoid_ld, OF b2 a6 a7 one WW room[of HIDDEN_2_SIZE]]
  obtain out where
    l3: "those (map (\<lambda>k. neuron_ld sigmoid_ld h2' (\<lambda>j. w3 m ! j ! k) (b3 m ! k) HIDDEN_2_SIZE)
           [0..<OUTPUT_SIZE]) = Some out" by auto
  show ?thesis by (simp only: forward_ld_def l1 l2 l3 option.case) blast
qed

lemma forward_ld_output:
  assumes "forward_ld m inp = Some m'"
  shows "\<exists>s. output_act m' ! 0 = sigmoid_ld s"
  using assms by (auto simp: forward_ld_def neuron_ld_def split: option.splits)

lemma round_even_of_int: "round_even (of_int n) = n"
  by (simp add: round_even_def)

lemma ld_0: "ld 0 = Some 0"
  using LDBL_MAX_pos by (simp add: ld_def round_ld_def)

lemma round_ld_50: "round_ld 50 = 50"
proof -
  have "(2::real) powr 5 = 2 ^ 5" by (rule powr_numeral) simp
  hence lo: "(2::real) powr 5 \<le> 50" by simp
  have "(2::real) powr 6 = 2 ^ 6" by (rule powr_numeral) simp
  hence hi: "(50::real) < 2 powr 6" by simp
  have "5 \<le> log 2 50" using lo le_log_iff[of 2 50 5] by simp
  moreover have "log 2 50 < 6" using hi log_less_iff[of 2 50 6] by simp
  ultimately have e: "\<lfloor>log 2 (50::real)\<rfloor> = 5" by (simp add: floor_eq_iff)
  have "(2::real) powr (- 58) = 1 / 2 powr 58" by (rule powr_minus_divide)
  also have "(2::real) powr 58 = 2 ^ 58" by (rule powr_numeral) simp
  finally have u: "(2::real) powr (- 58) = 1 / 2 ^ 58" .
  have q: "50 / (1 / 2 ^ 58) = (of_int (50 * 2 ^ 58) :: real)" by simp
  have a: "\<bar>50 :: real\<bar> = 50" by simp
  have "round_ld 50 = of_int (round_even (50 / 2 powr (of_int 5 - 63))) * 2 powr (of_int 5 - 63)"
    by (simp only: round_ld_def Let_def a e) simp
  also have "(of_int 5 :: real) - 63 = - 58" by simp
  finally have "round_ld 50 = of_int (round_even (50 / (1 / 2 ^ 58))) * (1 / 2 ^ 58)"
    by (simp only: u)
  thus ?thesis by (simp only: q round_even_of_int) simp
qed

lemma ld_50: "ld 50 = Some 50"
proof -
  have "(50::real) \<le> 2 ^ 6" by simp
  also have "\<dots> \<le> LDBL_MAX" by (rule pow2_le_LDBL_MAX) (simp add: LDBL_MAX_EXP_def)
  finally show ?thesis by (simp add: ld_def Let_def round_ld_50)
qed

lemma mac_ld_zero_weight: "ld s = Some s \<Longrightarrow> mac_ld a 0 (Some s) = Some s"
  by (simp add: mac_ld_def ld_0)

lemma fold_mac_ld_zero_weights:
  assumes "ld b = Some b"
  shows "(\<forall>i < n. w i = 0) \<Longrightarrow>
     fold (\<lambda>i acc. mac_ld (inp ! i) (w i) acc) [0..<n] (Some b) = Some b"
  by (induction n) (simp_all add: mac_ld_zero_weight[OF assms])

lemma neuron_ld_zero_weights:
  assumes "ld b = Some b" "\<forall>i < n. w i = 0"
  shows "neuron_ld act inp w b n = Some (act b)"
  using fold_mac_ld_zero_weights[OF assms] by (simp add: neuron_ld_def)

lemma those_map_const:
  assumes "\<And>j. j < n \<Longrightarrow> f j = Some c"
  shows "those (map f [0..<n]) = Some (replicate n c)"
proof -
  have "map f [0..<n] = map (\<lambda>j. Some c) [0..<n]" by (rule map_cong) (simp_all add: assms)
  also have "those \<dots> = Some (map (\<lambda>j. the (Some c)) [0..<n])"
    by (rule those_map_Some) simp
  also have "map (\<lambda>j. the (Some c)) [0..<n] = replicate n c"
    by (simp add: map_replicate_const)
  finally show ?thesis .
qed

lemma tanh_ld_0: "tanh_ld 0 = 0"
  by (simp add: tanh_ld_def round_ld_def)

lemma forward_ld_saturated:
  "forward_ld saturated_model inp =
     Some (saturated_model\<lparr>h1 := replicate HIDDEN_1_SIZE 0, h2 := replicate HIDDEN_2_SIZE 0,
                           output_act := [1]\<rparr>)"
proof -
  have l1: "those (map (\<lambda>j. neuron_ld tanh_ld inp (\<lambda>i. w1 saturated_model ! i ! j)
               (b1 saturated_model ! j) INPUT_SIZE) [0..<HIDDEN_1_SIZE]) =
            Some (replicate HIDDEN_1_SIZE 0)"
  proof (rule those_map_const)
    fix j :: nat assume j: "j < HIDDEN_1_SIZE"
    have "neuron_ld tanh_ld inp (\<lambda>i. w1 saturated_model ! i ! j) (b1 saturated_model ! j)
            INPUT_SIZE = Some (tanh_ld (b1 saturated_model ! j))"
      by (rule neuron_ld_zero_weights) (use j in \<open>simp_all add: saturated_model_def ld_0\<close>)
    thus "neuron_ld tanh_ld inp (\<lambda>i. w1 saturated_model ! i ! j) (b1 saturated_model ! j)
            INPUT_SIZE = Some 0"
      using j by (simp add: saturated_model_def tanh_ld_0)
  qed
  have l2: "those (map (\<lambda>j. neuron_ld tanh_ld h (\<lambda>i. w2 saturated_model ! i ! j)
               (b2 saturated_model ! j) HIDDEN_1_SIZE) [0..<HIDDEN_2_SIZE]) =
            Some (replicate HIDDEN_2_SIZE 0)" for h
  proof (rule those_map_const)
    fix j :: nat assume j: "j < HIDDEN_2_SIZE"
    have "neuron_ld tanh_ld h (\<lambda>i. w2 saturated_model ! i ! j) (b2 saturated_model ! j)
            HIDDEN_1_SIZE = Some (tanh_ld (b2 saturated_model ! j))"
      by (rule neuron_ld_zero_weights) (use j in \<open>simp_all add: saturated_model_def ld_0\<close>)
    thus "neuron_ld tanh_ld h (\<lambda>i. w2 saturated_model ! i ! j) (b2 saturated_model ! j)
            HIDDEN_1_SIZE = Some 0"
      using j by (simp add: saturated_model_def tanh_ld_0)
  qed
  have l3: "those (map (\<lambda>k. neuron_ld sigmoid_ld h (\<lambda>j. w3 saturated_model ! j ! k)
               (b3 saturated_model ! k) HIDDEN_2_SIZE) [0..<OUTPUT_SIZE]) =
            Some (replicate OUTPUT_SIZE 1)" for h
  proof (rule those_map_const)
    fix k :: nat assume k: "k < OUTPUT_SIZE"
    have "neuron_ld sigmoid_ld h (\<lambda>j. w3 saturated_model ! j ! k) (b3 saturated_model ! k)
            HIDDEN_2_SIZE = Some (sigmoid_ld (b3 saturated_model ! k))"
      by (rule neuron_ld_zero_weights) (use k in \<open>simp_all add: saturated_model_def ld_50\<close>)
    thus "neuron_ld sigmoid_ld h (\<lambda>j. w3 saturated_model ! j ! k) (b3 saturated_model ! k)
            HIDDEN_2_SIZE = Some 1"
      using k by (simp add: saturated_model_def sigmoid_ld_saturates_high)
  qed
  show ?thesis by (simp only: forward_ld_def l1 l2 l3 option.case) simp
qed

subsection \<open>The inference path\<close>

lemma forward_output_range:
  "0 < output_act (forward m x) ! 0 \<and> output_act (forward m x) ! 0 < 1"
  by (simp add: forward_output sigmoid_pos sigmoid_less_1)

lemma temperature_scale_4_range:
  "0 < temperature_scale_probability p 4 \<and> temperature_scale_probability p 4 < 1"
  by (simp add: temperature_scale_probability_def Let_def sigmoid_pos sigmoid_less_1)

lemma damp_context_features_nth:
  assumes "length raw = INPUT_SIZE" "j < INPUT_SIZE"
  shows "damp_context_features raw ! j =
     (if j = FEAT_WIN_RATE_DELTA \<or> j = FEAT_TOTAL_WINS_DELTA \<or> j = FEAT_TOTAL_FIGHTS_DELTA \<or>
         j = FEAT_WEIGHTED_SCORE_DELTA then raw ! j * 0.20
      else if j = FEAT_H2H_DELTA then raw ! j * 0.05
      else raw ! j)"
  using assms by (simp add: damp_context_features_def Let_def nth_list_update)

lemma length_damp_context_features [simp]:
  "length (damp_context_features raw) = length raw"
  by (simp add: damp_context_features_def Let_def)

lemma zero_std_iff:
  "list_ex (\<lambda>i. feat_std m ! i = 0) [0..<INPUT_SIZE] \<longleftrightarrow> (\<exists>i < INPUT_SIZE. feat_std m ! i = 0)"
  by (auto simp: list_ex_iff)

lemma predict_query_Probabilities:
  assumes "predict_query al future_mode m ctx fight = Inr (Probabilities feats p1 p2, c)"
  obtains raw where
    "\<not> fighter_stats_identical fight (1 / 10 ^ 12)"
    "\<forall>i < INPUT_SIZE. feat_std m ! i \<noteq> 0"
    "compute_features_with al fight ctx = Inr (raw, c)"
    "feats = (if future_mode then damp_context_features raw else raw)"
    "p1 = (if future_mode
           then temperature_scale_probability
                  (output_act (forward m (normalize_features feats m)) ! 0) 4
           else output_act (forward m (normalize_features feats m)) ! 0)"
    "p2 = 1 - p1"
proof -
  from assms have ni: "\<not> fighter_stats_identical fight (1 / 10 ^ 12)"
    by (auto simp: predict_query_def split: if_splits)
  with assms obtain raw c0 where cf: "compute_features_with al fight ctx = Inr (raw, c0)"
    by (auto simp: predict_query_def bind_err_Inr)
  define feats0 where "feats0 = (if future_mode then damp_context_features raw else raw)"
  have run: "predict_query al future_mode m ctx fight =
      (if list_ex (\<lambda>i. feat_std m ! i = 0) [0..<INPUT_SIZE]
       then Inr (Non_Finite_Input feats0, c0)
       else Inr (Probabilities feats0
              (if future_mode
               then temperature_scale_probability
                      (output_act (forward m (normalize_features feats0 m)) ! 0) 4
               else output_act (forward m (normalize_features feats0 m)) ! 0)
              (1 - (if future_mode
               then temperature_scale_probability
                      (output_act (forward m (normalize_features feats0 m)) ! 0) 4
               else output_act (forward m (normalize_features feats0 m)) ! 0)), c0))"
    using ni cf by (simp add: predict_query_def bind_err_def Let_def feats0_def)
  from assms run have nz: "\<not> list_ex (\<lambda>i. feat_std m ! i = 0) [0..<INPUT_SIZE]"
    by (auto split: if_splits)
  with assms run have
    "c = c0" "feats = feats0"
    "p1 = (if future_mode
           then temperature_scale_probability
                  (output_act (forward m (normalize_features feats0 m)) ! 0) 4
           else output_act (forward m (normalize_features feats0 m)) ! 0)"
    "p2 = 1 - p1"
    by simp_all
  with that[of raw] ni nz cf show thesis
    unfolding zero_std_iff feats0_def by blast
qed

lemma predict_query_returns:
  assumes "\<not> fighter_stats_identical fight (1 / 10 ^ 12)"
    and "\<forall>i < INPUT_SIZE. feat_std m ! i \<noteq> 0"
  shows "\<exists>feats p1 p2 c.
     predict_query in_place future_mode m ctx fight = Inr (Probabilities feats p1 p2, c)"
proof -
  from compute_features_in_place_returns[of fight ctx] obtain raw c where
    "compute_features_with in_place fight ctx = Inr (raw, c)" by blast
  moreover have "\<not> list_ex (\<lambda>i. feat_std m ! i = 0) [0..<INPUT_SIZE]"
    using assms(2) unfolding zero_std_iff by blast
  ultimately show ?thesis
    using assms(1) by (simp add: predict_query_def bind_err_def Let_def)
qed

lemma clamp_eq:
  "(if (if p < e then e else p) > 1 - e then 1 - e else (if p < e then e else p)) =
     min (1 - e) (max e (p::real))"
  by (auto simp: min_def max_def)

lemma temperature_scale_4_eq:
  "temperature_scale_probability p 4 =
     sigmoid (ln (min (1 - 1 / 10 ^ 12) (max (1 / 10 ^ 12) p) /
                  (1 - min (1 - 1 / 10 ^ 12) (max (1 / 10 ^ 12) p))) / 4)"
proof -
  have "temperature_scale_probability p 4 =
      sigmoid (ln ((if (if p < 1 / 10 ^ 12 then 1 / 10 ^ 12 else p) > 1 - 1 / 10 ^ 12
                    then 1 - 1 / 10 ^ 12 else (if p < 1 / 10 ^ 12 then 1 / 10 ^ 12 else p)) /
                   (1 - (if (if p < 1 / 10 ^ 12 then 1 / 10 ^ 12 else p) > 1 - 1 / 10 ^ 12
                    then 1 - 1 / 10 ^ 12 else (if p < 1 / 10 ^ 12 then 1 / 10 ^ 12 else p)))) / 4)"
    unfolding temperature_scale_probability_def Let_def by simp
  thus ?thesis by (simp only: clamp_eq)
qed

lemma odds_mono:
  assumes "0 < c" "c \<le> d" "d < (1::real)"
  shows "ln (c / (1 - c)) \<le> ln (d / (1 - d))"
proof -
  have "c * (1 - d) \<le> d * (1 - c)" using assms by (simp add: algebra_simps)
  hence "c / (1 - c) \<le> d / (1 - d)" using assms by (simp add: field_simps)
  moreover have "0 < c / (1 - c)" using assms by simp
  ultimately show ?thesis by simp
qed

lemma temperature_scale_4_mono:
  assumes "p \<le> q"
  shows "temperature_scale_probability p 4 \<le> temperature_scale_probability q 4"
proof -
  let ?c = "min (1 - 1 / 10 ^ 12) (max (1 / 10 ^ 12) p)"
  let ?d = "min (1 - 1 / 10 ^ 12) (max (1 / 10 ^ 12) q)"
  have "0 < ?c" "?c \<le> ?d" "?d < 1" using assms by (auto simp: min_def max_def)
  from odds_mono[OF this] have "ln (?c / (1 - ?c)) / 4 \<le> ln (?d / (1 - ?d)) / 4"
    by (rule divide_right_mono) simp
  thus ?thesis unfolding temperature_scale_4_eq by (rule sigmoid_mono)
qed

lemma temperature_scale_4_half: "temperature_scale_probability (1 / 2) 4 = 1 / 2"
  by (simp add: temperature_scale_4_eq sigmoid_0 min_def max_def)

text \<open>
  C9. A query of \<^verbatim>\<open>predict_interactive\<close> reports two probabilities whenever its two
  statistics tuples are not identical, no stored deviation is 0 and the allocator moves
  no block. Whenever it reports them: in future-fight mode the features with indices 14
  to 17 (prior win-rate, total wins, total fights, weighted score) are the computed ones
  times 0.20 and feature 19 (head-to-head bias) times 0.05, the other features are
  unchanged, all before normalization, and the reported probability is
  \<open>sigmoid (logit (clamp p) / 4)\<close> of the network output \<open>p\<close>, the clamp being to
  \<open>[10\<^sup>-\<^sup>1\<^sup>2, 1 - 10\<^sup>-\<^sup>1\<^sup>2]\<close>; in historical mode the features and the output
  are reported as computed. The map of the future mode is monotone and fixes 1/2.
\<close>

theorem predict_future_mode_damping:
  "(al = in_place \<and> \<not> fighter_stats_identical fight (1 / 10 ^ 12) \<and>
      (\<forall>i < INPUT_SIZE. feat_std m ! i \<noteq> 0) \<longrightarrow>
      (\<exists>feats p1 p2 c.
         predict_query al future_mode m ctx fight = Inr (Probabilities feats p1 p2, c))) \<and>
   (\<forall>feats p1 p2 c.
      predict_query al future_mode m ctx fight = Inr (Probabilities feats p1 p2, c) \<longrightarrow>
        (\<exists>raw. compute_features_with al fight ctx = Inr (raw, c) \<and>
            length raw = INPUT_SIZE \<and> length feats = INPUT_SIZE \<and>
            (future_mode \<longrightarrow>
               (\<forall>j < INPUT_SIZE. feats ! j =
                  (if j = FEAT_WIN_RATE_DELTA \<or> j = FEAT_TOTAL_WINS_DELTA \<or>
                      j = FEAT_TOTAL_FIGHTS_DELTA \<or> j = FEAT_WEIGHTED_SCORE_DELTA
                   then raw ! j * 0.20
                   else if j = FEAT_H2H_DELTA then raw ! j * 0.05
                   else raw ! j))) \<and>
            (\<not> future_mode \<longrightarrow> feats = raw)) \<and>
        (future_mode \<longrightarrow>
           p1 = sigmoid
             (ln (min (1 - 1 / 10 ^ 12)
                    (max (1 / 10 ^ 12) (output_act (forward m (normalize_features feats m)) ! 0)) /
                  (1 - min (1 - 1 / 10 ^ 12)
                    (max (1 / 10 ^ 12) (output_act (forward m (normalize_features feats m)) ! 0))))
              / 4)) \<and>
        (\<not> future_mode \<longrightarrow> p1 = output_act (forward m (normalize_features feats m)) ! 0) \<and>
        p2 = 1 - p1) \<and>
   (\<forall>p q. p \<le> q \<longrightarrow>
      temperature_scale_probability p 4 \<le> temperature_scale_probability q 4) \<and>
   temperature_scale_probability (1 / 2) 4 = 1 / 2"
proof (rule conjI[OF _ conjI[OF _ conjI]])
  show "al = in_place \<and> \<not> fighter_stats_identical fight (1 / 10 ^ 12) \<and>
      (\<forall>i < INPUT_SIZE. feat_std m ! i \<noteq> 0) \<longrightarrow>
      (\<exists>feats p1 p2 c.
         predict_query al future_mode m ctx fight = Inr (Probabilities feats p1 p2, c))"
    using predict_query_returns by blast
next
  show "\<forall>feats p1 p2 c.
      predict_query al future_mode m ctx fight = Inr (Probabilities feats p1 p2, c) \<longrightarrow>
        (\<exists>raw. compute_features_with al fight ctx = Inr (raw, c) \<and>
            length raw = INPUT_SIZE \<and> length feats = INPUT_SIZE \<and>
            (future_mode \<longrightarrow>
               (\<forall>j < INPUT_SIZE. feats ! j =
                  (if j = FEAT_WIN_RATE_DELTA \<or> j = FEAT_TOTAL_WINS_DELTA \<or>
                      j = FEAT_TOTAL_FIGHTS_DELTA \<or> j = FEAT_WEIGHTED_SCORE_DELTA
                   then raw ! j * 0.20
                   else if j = FEAT_H2H_DELTA then raw ! j * 0.05
                   else raw ! j))) \<and>
            (\<not> future_mode \<longrightarrow> feats = raw)) \<and>
        (future_mode \<longrightarrow>
           p1 = sigmoid
             (ln (min (1 - 1 / 10 ^ 12)
                    (max (1 / 10 ^ 12) (output_act (forward m (normalize_features feats m)) ! 0)) /
                  (1 - min (1 - 1 / 10 ^ 12)
                    (max (1 / 10 ^ 12) (output_act (forward m (normalize_features feats m)) ! 0))))
              / 4)) \<and>
        (\<not> future_mode \<longrightarrow> p1 = output_act (forward m (normalize_features feats m)) ! 0) \<and>
        p2 = 1 - p1"
  proof (intro allI impI)
    fix feats p1 p2 c
    assume "predict_query al future_mode m ctx fight = Inr (Probabilities feats p1 p2, c)"
    then obtain raw where
      cf: "compute_features_with al fight ctx = Inr (raw, c)" and
      fe: "feats = (if future_mode then damp_context_features raw else raw)" and
      p1: "p1 = (if future_mode
             then temperature_scale_probability
                    (output_act (forward m (normalize_features feats m)) ! 0) 4
             else output_act (forward m (normalize_features feats m)) ! 0)" and
      p2: "p2 = 1 - p1"
      by (rule predict_query_Probabilities)
    have lr: "length raw = INPUT_SIZE" by (rule compute_features_with_length[OF cf])
    have lf: "length feats = INPUT_SIZE" using fe lr by simp
    have damp: "future_mode \<longrightarrow>
        (\<forall>j < INPUT_SIZE. feats ! j =
           (if j = FEAT_WIN_RATE_DELTA \<or> j = FEAT_TOTAL_WINS_DELTA \<or>
               j = FEAT_TOTAL_FIGHTS_DELTA \<or> j = FEAT_WEIGHTED_SCORE_DELTA
            then raw ! j * 0.20
            else if j = FEAT_H2H_DELTA then raw ! j * 0.05
            else raw ! j))"
      using fe damp_context_features_nth[OF lr] by simp
    have hist: "\<not> future_mode \<longrightarrow> feats = raw" using fe by simp
    have first: "\<exists>raw. compute_features_with al fight ctx = Inr (raw, c) \<and>
              length raw = INPUT_SIZE \<and> length feats = INPUT_SIZE \<and>
              (future_mode \<longrightarrow>
                 (\<forall>j < INPUT_SIZE. feats ! j =
                    (if j = FEAT_WIN_RATE_DELTA \<or> j = FEAT_TOTAL_WINS_DELTA \<or>
                        j = FEAT_TOTAL_FIGHTS_DELTA \<or> j = FEAT_WEIGHTED_SCORE_DELTA
                     then raw ! j * 0.20
                     else if j = FEAT_H2H_DELTA then raw ! j * 0.05
                     else raw ! j))) \<and>
              (\<not> future_mode \<longrightarrow> feats = raw)"
      using cf lr lf damp hist by blast
    have fut: "future_mode \<longrightarrow>
              p1 = sigmoid
                (ln (min (1 - 1 / 10 ^ 12)
                       (max (1 / 10 ^ 12) (output_act (forward m (normalize_features feats m)) ! 0)) /
                     (1 - min (1 - 1 / 10 ^ 12)
                       (max (1 / 10 ^ 12) (output_act (forward m (normalize_features feats m)) ! 0))))
                 / 4)"
      using p1 by (simp add: temperature_scale_4_eq)
    have his: "\<not> future_mode \<longrightarrow> p1 = output_act (forward m (normalize_features feats m)) ! 0"
      using p1 by simp
    from first fut his p2
    show "(\<exists>raw. compute_features_with al fight ctx = Inr (raw, c) \<and>
            length raw = INPUT_SIZE \<and> length feats = INPUT_SIZE \<and>
            (future_mode \<longrightarrow>
               (\<forall>j < INPUT_SIZE. feats ! j =
                  (if j = FEAT_WIN_RATE_DELTA \<or> j = FEAT_TOTAL_WINS_DELTA \<or>
                      j = FEAT_TOTAL_FIGHTS_DELTA \<or> j = FEAT_WEIGHTED_SCORE_DELTA
                   then raw ! j * 0.20
                   else if j = FEAT_H2H_DELTA then raw ! j * 0.05
                   else raw ! j))) \<and>
            (\<not> future_mode \<longrightarrow> feats = raw)) \<and>
        (future_mode \<longrightarrow>
           p1 = sigmoid
             (ln (min (1 - 1 / 10 ^ 12)
                    (max (1 / 10 ^ 12) (output_act (forward m (normalize_features feats m)) ! 0)) /
                  (1 - min (1 - 1 / 10 ^ 12)
                    (max (1 / 10 ^ 12) (output_act (forward m (normalize_features feats m)) ! 0))))
              / 4)) \<and>
        (\<not> future_mode \<longrightarrow> p1 = output_act (forward m (normalize_features feats m)) ! 0) \<and>
        p2 = 1 - p1"
      by blast
  qed
next
  show "\<forall>p q. p \<le> q \<longrightarrow>
      temperature_scale_probability p 4 \<le> temperature_scale_probability q 4"
    using temperature_scale_4_mono by blast
next
  show "temperature_scale_probability (1 / 2) 4 = 1 / 2" by (rule temperature_scale_4_half)
qed

lemma context_hidden1: "hidden1 context_model inp ! 0 = tanh (inp ! FEAT_WIN_RATE_DELTA)"
proof -
  have "(\<Sum>i<INPUT_SIZE. inp ! i * w1 context_model ! i ! 0) =
        (\<Sum>i<INPUT_SIZE. if i = FEAT_WIN_RATE_DELTA then inp ! i else 0)"
    by (rule sum.cong) (simp_all add: context_model_def)
  also have "\<dots> = inp ! FEAT_WIN_RATE_DELTA" by simp
  finally show ?thesis
    by (simp add: hidden1_def tanh_act_def fold_add_sum context_model_def)
qed

lemma context_hidden2: "hidden2 context_model a ! 0 = tanh (a ! 0)"
proof -
  have "(\<Sum>i<HIDDEN_1_SIZE. a ! i * w2 context_model ! i ! 0) =
        (\<Sum>i<HIDDEN_1_SIZE. if i = 0 then a ! i else 0)"
    by (rule sum.cong) (simp_all add: context_model_def)
  also have "\<dots> = a ! 0" by simp
  finally show ?thesis
    by (simp add: hidden2_def tanh_act_def fold_add_sum context_model_def)
qed

lemma context_output:
  "output_act (forward context_model inp) ! 0 = sigmoid (tanh (tanh (inp ! FEAT_WIN_RATE_DELTA)))"
proof -
  have "(\<Sum>j<HIDDEN_2_SIZE. hidden2 context_model (hidden1 context_model inp) ! j *
           w3 context_model ! j ! 0) =
        (\<Sum>j<HIDDEN_2_SIZE. if j = 0
           then hidden2 context_model (hidden1 context_model inp) ! j else 0)"
    by (rule sum.cong) (simp_all add: context_model_def)
  also have "\<dots> = hidden2 context_model (hidden1 context_model inp) ! 0"
    by simp
  finally have "(\<Sum>j<HIDDEN_2_SIZE. hidden2 context_model (hidden1 context_model inp) ! j *
           w3 context_model ! j ! 0) = tanh (tanh (inp ! FEAT_WIN_RATE_DELTA))"
    by (simp only: context_hidden1 context_hidden2)
  moreover have "b3 context_model ! 0 = 0" by (simp add: context_model_def)
  ultimately show ?thesis by (simp only: forward_output fold_add_sum) simp
qed

lemma context_normalize:
  "j < INPUT_SIZE \<Longrightarrow> normalize_features feats context_model ! j = feats ! j / 2"
  by (simp add: normalize_features_def context_model_def)

lemma context_std: "\<forall>i < INPUT_SIZE. feat_std context_model ! i \<noteq> 0"
  by (simp add: context_model_def)

lemma example_query_not_identical: "\<not> fighter_stats_identical example_query (1 / 10 ^ 12)"
  by (simp add: fighter_stats_identical_def example_query_def example_fight_def)

lemma example_query_features:
  "\<exists>raw. compute_features_with in_place example_query rematch_context =
           Inr (raw, rematch_context) \<and>
         raw ! 0 = 5 \<and> raw ! FEAT_WIN_RATE_DELTA = 1 / 2 \<and> raw ! FEAT_TOTAL_WINS_DELTA = 2 \<and>
         raw ! FEAT_TOTAL_FIGHTS_DELTA = 0 \<and> raw ! FEAT_WEIGHTED_SCORE_DELTA = ln 3 / 2 \<and>
         raw ! FEAT_H2H_DELTA = 1"
  by (simp add: example_query_def rematch_context_def ctx_eval feature_eval feature_vector_def
      prior_win_rate_def weighted_score_def head_to_head_bias_def example_fight_def)

lemma sigmoid_gt_half: "0 < x \<Longrightarrow> 1 / 2 < sigmoid x"
proof -
  assume "0 < x"
  hence "exp (- x) < 1" by simp
  hence "1 + exp (- x) < 2" by simp
  moreover have "0 < 1 + exp (- x)" by (simp add: add_pos_pos)
  ultimately show ?thesis by (simp add: sigmoid_def field_simps)
qed

lemma logit_sigmoid: "ln (sigmoid t / (1 - sigmoid t)) = t"
proof -
  have p: "0 < 1 + exp (- t)" by (simp add: add_pos_pos)
  have "1 - sigmoid t = exp (- t) / (1 + exp (- t))"
    using p by (simp add: sigmoid_def field_simps)
  hence "sigmoid t / (1 - sigmoid t) = 1 / exp (- t)"
    using p by (simp add: sigmoid_def)
  also have "\<dots> = exp t" by (simp add: exp_minus inverse_eq_divide)
  finally show ?thesis by simp
qed

lemma sigmoid_1_bounds: "1 / 4 \<le> sigmoid (- 1) \<and> sigmoid 1 \<le> 3 / 4"
proof -
  have "exp (1::real) \<le> 3" by (rule exp_le)
  hence "1 / 3 \<le> 1 / exp (1::real)" by (simp add: field_simps)
  hence e: "1 / 3 \<le> exp (- 1 :: real)" by (simp add: exp_minus inverse_eq_divide)
  have p: "0 < 1 + exp (- 1 :: real)" by (simp add: add_pos_pos)
  have "sigmoid 1 \<le> 3 / 4" using e p by (simp add: sigmoid_def field_simps)
  moreover have "sigmoid (- 1) = 1 - sigmoid 1" by (rule sigmoid_minus)
  ultimately show ?thesis by simp
qed

lemma temperature_scale_4_sigmoid:
  assumes "- 1 \<le> t" "t \<le> 1"
  shows "temperature_scale_probability (sigmoid t) 4 = sigmoid (t / 4)"
proof -
  have "sigmoid (- 1) \<le> sigmoid t" "sigmoid t \<le> sigmoid 1"
    using assms by (simp_all add: sigmoid_mono)
  with sigmoid_1_bounds have "1 / 4 \<le> sigmoid t" "sigmoid t \<le> 3 / 4" by simp_all
  hence "min (1 - 1 / 10 ^ 12) (max (1 / 10 ^ 12) (sigmoid t)) = sigmoid t"
    by (simp add: min_def max_def)
  thus ?thesis by (simp only: temperature_scale_4_eq logit_sigmoid)
qed

theorem predict_future_mode_damping_witness:
  "(\<exists>feats p1 p2.
      predict_query in_place True context_model rematch_context example_query =
        Inr (Probabilities feats p1 p2, rematch_context) \<and>
      feats ! 0 = 5 \<and> feats ! FEAT_WIN_RATE_DELTA = 1 / 10 \<and>
      feats ! FEAT_TOTAL_WINS_DELTA = 2 / 5 \<and> feats ! FEAT_TOTAL_FIGHTS_DELTA = 0 \<and>
      feats ! FEAT_WEIGHTED_SCORE_DELTA = ln 3 / 10 \<and> feats ! FEAT_H2H_DELTA = 1 / 20 \<and>
      p1 = sigmoid (tanh (tanh (1 / 20)) / 4) \<and> p2 = 1 - p1 \<and> 1 / 2 < p1) \<and>
   (\<exists>feats p1 p2.
      predict_query in_place False context_model rematch_context example_query =
        Inr (Probabilities feats p1 p2, rematch_context) \<and>
      feats ! 0 = 5 \<and> feats ! FEAT_WIN_RATE_DELTA = 1 / 2 \<and>
      feats ! FEAT_TOTAL_WINS_DELTA = 2 \<and> feats ! FEAT_TOTAL_FIGHTS_DELTA = 0 \<and>
      feats ! FEAT_WEIGHTED_SCORE_DELTA = ln 3 / 2 \<and> feats ! FEAT_H2H_DELTA = 1 \<and>
      p1 = sigmoid (tanh (tanh (1 / 4))) \<and> p2 = 1 - p1 \<and> 1 / 2 < p1) \<and>
   temperature_scale_probability (1 / 4) 4 \<le> temperature_scale_probability (3 / 4) 4 \<and>
   temperature_scale_probability (1 / 2) 4 = 1 / 2"
proof -
  from example_query_features obtain raw0 where
    cf0: "compute_features_with in_place example_query rematch_context =
            Inr (raw0, rematch_context)" and
    r0: "raw0 ! 0 = 5" "raw0 ! FEAT_WIN_RATE_DELTA = 1 / 2" "raw0 ! FEAT_TOTAL_WINS_DELTA = 2"
      "raw0 ! FEAT_TOTAL_FIGHTS_DELTA = 0" "raw0 ! FEAT_WEIGHTED_SCORE_DELTA = ln 3 / 2"
      "raw0 ! FEAT_H2H_DELTA = 1"
    by blast
  have future: "\<exists>feats p1 p2.
      predict_query in_place True context_model rematch_context example_query =
        Inr (Probabilities feats p1 p2, rematch_context) \<and>
      feats ! 0 = 5 \<and> feats ! FEAT_WIN_RATE_DELTA = 1 / 10 \<and>
      feats ! FEAT_TOTAL_WINS_DELTA = 2 / 5 \<and> feats ! FEAT_TOTAL_FIGHTS_DELTA = 0 \<and>
      feats ! FEAT_WEIGHTED_SCORE_DELTA = ln 3 / 10 \<and> feats ! FEAT_H2H_DELTA = 1 / 20 \<and>
      p1 = sigmoid (tanh (tanh (1 / 20)) / 4) \<and> p2 = 1 - p1 \<and> 1 / 2 < p1"
  proof -
    note t = predict_future_mode_damping[where al = in_place and fight = example_query
        and m = context_model and future_mode = True and ctx = rematch_context]
    from t example_query_not_identical context_std obtain feats p1 p2 c where
      run: "predict_query in_place True context_model rematch_context example_query =
              Inr (Probabilities feats p1 p2, c)" by blast
    from t run obtain raw where
      cf: "compute_features_with in_place example_query rematch_context = Inr (raw, c)" and
      damp: "\<forall>j < INPUT_SIZE. feats ! j =
                  (if j = FEAT_WIN_RATE_DELTA \<or> j = FEAT_TOTAL_WINS_DELTA \<or>
                      j = FEAT_TOTAL_FIGHTS_DELTA \<or> j = FEAT_WEIGHTED_SCORE_DELTA
                   then raw ! j * 0.20
                   else if j = FEAT_H2H_DELTA then raw ! j * 0.05
                   else raw ! j)" and
      p1: "p1 = sigmoid
             (ln (min (1 - 1 / 10 ^ 12)
                    (max (1 / 10 ^ 12)
                       (output_act (forward context_model
                          (normalize_features feats context_model)) ! 0)) /
                  (1 - min (1 - 1 / 10 ^ 12)
                    (max (1 / 10 ^ 12)
                       (output_act (forward context_model
                          (normalize_features feats context_model)) ! 0))))
              / 4)" and
      p2: "p2 = 1 - p1"
      by blast
    from cf cf0 have e: "raw = raw0" "c = rematch_context" by simp_all
    have f: "feats ! 0 = 5" "feats ! FEAT_WIN_RATE_DELTA = 1 / 10"
      "feats ! FEAT_TOTAL_WINS_DELTA = 2 / 5" "feats ! FEAT_TOTAL_FIGHTS_DELTA = 0"
      "feats ! FEAT_WEIGHTED_SCORE_DELTA = ln 3 / 10" "feats ! FEAT_H2H_DELTA = 1 / 20"
      using damp r0 e by simp_all
    have out: "output_act (forward context_model (normalize_features feats context_model)) ! 0 =
        sigmoid (tanh (tanh (1 / 20)))"
      by (simp add: context_output context_normalize f)
    have b: "- 1 \<le> tanh (tanh (1 / 20 :: real))" "tanh (tanh (1 / 20 :: real)) \<le> 1"
      using tanh_real_bounds[of "tanh (1 / 20)"] by simp_all
    have "p1 = temperature_scale_probability (sigmoid (tanh (tanh (1 / 20)))) 4"
      using p1 by (simp only: out temperature_scale_4_eq)
    hence p1': "p1 = sigmoid (tanh (tanh (1 / 20)) / 4)"
      by (simp only: temperature_scale_4_sigmoid[OF b])
    have "0 < tanh (tanh (1 / 20 :: real)) / 4" by simp
    hence "1 / 2 < p1" unfolding p1' by (rule sigmoid_gt_half)
    with run e f p1' p2 show ?thesis by blast
  qed
  have historical: "\<exists>feats p1 p2.
      predict_query in_place False context_model rematch_context example_query =
        Inr (Probabilities feats p1 p2, rematch_context) \<and>
      feats ! 0 = 5 \<and> feats ! FEAT_WIN_RATE_DELTA = 1 / 2 \<and>
      feats ! FEAT_TOTAL_WINS_DELTA = 2 \<and> feats ! FEAT_TOTAL_FIGHTS_DELTA = 0 \<and>
      feats ! FEAT_WEIGHTED_SCORE_DELTA = ln 3 / 2 \<and> feats ! FEAT_H2H_DELTA = 1 \<and>
      p1 = sigmoid (tanh (tanh (1 / 4))) \<and> p2 = 1 - p1 \<and> 1 / 2 < p1"
  proof -
    note t = predict_future_mode_damping[where al = in_place and fight = example_query
        and m = context_model and future_mode = False and ctx = rematch_context]
    from t example_query_not_identical context_std obtain feats p1 p2 c where
      run: "predict_query in_place False context_model rematch_context example_query =
              Inr (Probabilities feats p1 p2, c)" by blast
    from t run obtain raw where
      cf: "compute_features_with in_place example_query rematch_context = Inr (raw, c)" and
      same: "feats = raw" and
      p1: "p1 = output_act (forward context_model (normalize_features feats context_model)) ! 0"
        and
      p2: "p2 = 1 - p1"
      by blast
    from cf cf0 have e: "raw = raw0" "c = rematch_context" by simp_all
    have f: "feats ! 0 = 5" "feats ! FEAT_WIN_RATE_DELTA = 1 / 2"
      "feats ! FEAT_TOTAL_WINS_DELTA = 2" "feats ! FEAT_TOTAL_FIGHTS_DELTA = 0"
      "feats ! FEAT_WEIGHTED_SCORE_DELTA = ln 3 / 2" "feats ! FEAT_H2H_DELTA = 1"
      using same r0 e by simp_all
    have p1': "p1 = sigmoid (tanh (tanh (1 / 4)))"
      using p1 by (simp add: context_output context_normalize f)
    have "0 < tanh (tanh (1 / 4 :: real))" by simp
    hence "1 / 2 < p1" unfolding p1' by (rule sigmoid_gt_half)
    with run e f p1' p2 show ?thesis by blast
  qed
  note t = predict_future_mode_damping[where al = in_place and fight = example_query
      and m = context_model and future_mode = True and ctx = rematch_context]
  have "(1 / 4 :: real) \<le> 3 / 4" by simp
  with t have mono:
    "temperature_scale_probability (1 / 4) 4 \<le> temperature_scale_probability (3 / 4) 4"
    by blast
  from t have half: "temperature_scale_probability (1 / 2) 4 = 1 / 2" by blast
  from future historical mono half show ?thesis by blast
qed

lemma predict_query_range:
  assumes "predict_query al future_mode m ctx fight = Inr (Probabilities feats p1 p2, c)"
  shows "0 < p1 \<and> p1 < 1 \<and> 0 < p2 \<and> p2 < 1 \<and> p1 + p2 = 1"
proof -
  from assms obtain raw :: "real list" where
    p1: "p1 = (if future_mode
           then temperature_scale_probability
                  (output_act (forward m (normalize_features feats m)) ! 0) 4
           else output_act (forward m (normalize_features feats m)) ! 0)" and
    p2: "p2 = 1 - p1"
    by (rule predict_query_Probabilities)
  have "0 < p1 \<and> p1 < 1"
    using p1 forward_output_range[of m "normalize_features feats m"]
      temperature_scale_4_range[of "output_act (forward m (normalize_features feats m)) ! 0"]
    by (cases future_mode) simp_all
  with p2 show ?thesis by simp
qed

lemma cross_entropy_arguments_ld_pos:
  assumes "0 \<le> pred" "pred \<le> 1"
  shows "0 < fst (cross_entropy_arguments_ld pred) \<and> 0 < snd (cross_entropy_arguments_ld pred)"
proof -
  have c: "0 < round_ld (1 / 10 ^ 15)" by (rule round_ld_pos) simp
  have "0 < pred + round_ld (1 / 10 ^ 15)" using assms(1) c by simp
  hence a: "0 < round_ld (pred + round_ld (1 / 10 ^ 15))" by (rule round_ld_pos)
  have "0 \<le> round_ld (1 - pred)" by (rule round_ld_nonneg) (use assms(2) in simp)
  hence "0 < round_ld (1 - pred) + round_ld (1 / 10 ^ 15)" using c by simp
  hence "0 < round_ld (round_ld (1 - pred) + round_ld (1 / 10 ^ 15))" by (rule round_ld_pos)
  with a show ?thesis by (simp add: cross_entropy_arguments_ld_def)
qed

lemma forward_ld_range:
  assumes "forward_ld m x = Some m'"
  shows "(\<exists>s. output_act m' ! 0 = sigmoid_ld s) \<and>
         0 \<le> output_act m' ! 0 \<and> output_act m' ! 0 \<le> 1 \<and>
         0 < fst (cross_entropy_arguments_ld (output_act m' ! 0)) \<and>
         0 < snd (cross_entropy_arguments_ld (output_act m' ! 0))"
proof -
  from forward_ld_output[OF assms] obtain s where s: "output_act m' ! 0 = sigmoid_ld s" ..
  hence r: "0 \<le> output_act m' ! 0" "output_act m' ! 0 \<le> 1"
    using sigmoid_ld_range[of s] by simp_all
  from s r cross_entropy_arguments_ld_pos[OF r] show ?thesis by blast
qed

lemma historical_report_ld_range:
  assumes "historical_report_ld m x = Some (p1, p2)"
  shows "0 \<le> p1 \<and> p1 \<le> 1 \<and> 0 \<le> p2 \<and> p2 \<le> 1 \<and> p2 = round_ld (1 - p1)"
proof -
  from assms obtain m' where f: "forward_ld m x = Some m'" and
    p: "p1 = output_act m' ! 0" "p2 = round_ld (1 - output_act m' ! 0)"
    by (auto simp: historical_report_ld_def split: option.splits)
  from forward_ld_range[OF f] have r: "0 \<le> p1" "p1 \<le> 1" using p by simp_all
  hence "0 \<le> round_ld (1 - p1)" "round_ld (1 - p1) \<le> 1"
    by (simp_all add: round_ld_nonneg round_ld_le_1)
  with r p show ?thesis by simp
qed

lemma forward_ld_returns:
  assumes "magnitudes_below (2 ^ 100) m x"
  shows "\<exists>m'. forward_ld m x = Some m'"
proof (rule forward_ld_Some[OF assms])
  show "(1::real) \<le> 2 ^ 100" by simp
  have "(8::real) ^ 64 * (2 ^ 100 * 2 ^ 100) = 2 ^ 392" by simp
  also have "\<dots> \<le> LDBL_MAX" by (rule pow2_le_LDBL_MAX) (simp add: LDBL_MAX_EXP_def)
  finally show "(8::real) ^ 64 * (2 ^ 100 * 2 ^ 100) \<le> LDBL_MAX" .
qed

text \<open>
  C10, as amended. Over the real numbers the output of \<^verbatim>\<open>forward\<close> lies strictly
  between 0 and 1 for every model and every input, both logarithms of the cross-entropy
  term have positive arguments, and a query whose statistics tuples are not identical,
  on a model without a stored deviation of 0, reports two probabilities that lie
  strictly between 0 and 1 and add up to 1, in both modes. In the long double arithmetic
  of the program the sigmoid has its values in the closed interval from 0 to 1: it
  returns exactly 1 from the argument 45 on and exactly 0 from \<open>-16384\<close> down. There
  \<^verbatim>\<open>forward\<close> returns (no infinity arises) when the inputs, weights and biases are at
  most \<open>2\<^sup>1\<^sup>0\<^sup>0\<close> in absolute value; whenever it returns, the output is a value of
  that sigmoid, hence between 0 and 1 inclusive, both logarithms of the cross-entropy term
  still have positive arguments, and the two probabilities of the historical mode lie
  between 0 and 1 inclusive, the second being the rounded difference of 1 and the first.
\<close>

theorem forward_output_in_unit_interval:
  "(0 < output_act (forward m x) ! 0 \<and> output_act (forward m x) ! 0 < 1 \<and>
    0 < output_act (forward m x) ! 0 + 1 / 10 ^ 15 \<and>
    0 < 1 - output_act (forward m x) ! 0 + 1 / 10 ^ 15 \<and>
    (\<forall>future_mode ctx fight.
       \<not> fighter_stats_identical fight (1 / 10 ^ 12) \<and>
       (\<forall>i < INPUT_SIZE. feat_std m ! i \<noteq> 0) \<longrightarrow>
       (\<exists>feats p1 p2 c.
          predict_query in_place future_mode m ctx fight =
            Inr (Probabilities feats p1 p2, c))) \<and>
    (\<forall>al future_mode ctx fight feats p1 p2 c.
       predict_query al future_mode m ctx fight = Inr (Probabilities feats p1 p2, c) \<longrightarrow>
       0 < p1 \<and> p1 < 1 \<and> 0 < p2 \<and> p2 < 1 \<and> p1 + p2 = 1)) \<and>
   (\<forall>s. 0 \<le> sigmoid_ld s \<and> sigmoid_ld s \<le> 1 \<and>
        (45 \<le> s \<longrightarrow> sigmoid_ld s = 1) \<and>
        (s \<le> - real LDBL_MAX_EXP \<longrightarrow> sigmoid_ld s = 0)) \<and>
   (magnitudes_below (2 ^ 100) m x \<longrightarrow> (\<exists>m'. forward_ld m x = Some m')) \<and>
   (\<forall>m'. forward_ld m x = Some m' \<longrightarrow>
      (\<exists>s. output_act m' ! 0 = sigmoid_ld s) \<and>
      0 \<le> output_act m' ! 0 \<and> output_act m' ! 0 \<le> 1 \<and>
      0 < fst (cross_entropy_arguments_ld (output_act m' ! 0)) \<and>
      0 < snd (cross_entropy_arguments_ld (output_act m' ! 0))) \<and>
   (\<forall>p1 p2. historical_report_ld m x = Some (p1, p2) \<longrightarrow>
      0 \<le> p1 \<and> p1 \<le> 1 \<and> 0 \<le> p2 \<and> p2 \<le> 1 \<and> p2 = round_ld (1 - p1))"
proof (rule conjI[OF _ conjI[OF _ conjI[OF _ conjI]]])
  note r = forward_output_range[of m x]
  have a: "0 < output_act (forward m x) ! 0 + 1 / 10 ^ 15" using r by simp
  have b: "0 < 1 - output_act (forward m x) ! 0 + 1 / 10 ^ 15" using r by simp
  have q: "\<forall>future_mode ctx fight.
       \<not> fighter_stats_identical fight (1 / 10 ^ 12) \<and>
       (\<forall>i < INPUT_SIZE. feat_std m ! i \<noteq> 0) \<longrightarrow>
       (\<exists>feats p1 p2 c.
          predict_query in_place future_mode m ctx fight =
            Inr (Probabilities feats p1 p2, c))"
    using predict_query_returns by blast
  from r a b q predict_query_range
  show "0 < output_act (forward m x) ! 0 \<and> output_act (forward m x) ! 0 < 1 \<and>
    0 < output_act (forward m x) ! 0 + 1 / 10 ^ 15 \<and>
    0 < 1 - output_act (forward m x) ! 0 + 1 / 10 ^ 15 \<and>
    (\<forall>future_mode ctx fight.
       \<not> fighter_stats_identical fight (1 / 10 ^ 12) \<and>
       (\<forall>i < INPUT_SIZE. feat_std m ! i \<noteq> 0) \<longrightarrow>
       (\<exists>feats p1 p2 c.
          predict_query in_place future_mode m ctx fight =
            Inr (Probabilities feats p1 p2, c))) \<and>
    (\<forall>al future_mode ctx fight feats p1 p2 c.
       predict_query al future_mode m ctx fight = Inr (Probabilities feats p1 p2, c) \<longrightarrow>
       0 < p1 \<and> p1 < 1 \<and> 0 < p2 \<and> p2 < 1 \<and> p1 + p2 = 1)"
    by blast
next
  show "\<forall>s. 0 \<le> sigmoid_ld s \<and> sigmoid_ld s \<le> 1 \<and>
        (45 \<le> s \<longrightarrow> sigmoid_ld s = 1) \<and>
        (s \<le> - real LDBL_MAX_EXP \<longrightarrow> sigmoid_ld s = 0)"
    using sigmoid_ld_range sigmoid_ld_saturates_high sigmoid_ld_saturates_low by blast
next
  show "magnitudes_below (2 ^ 100) m x \<longrightarrow> (\<exists>m'. forward_ld m x = Some m')"
    using forward_ld_returns by blast
next
  show "\<forall>m'. forward_ld m x = Some m' \<longrightarrow>
      (\<exists>s. output_act m' ! 0 = sigmoid_ld s) \<and>
      0 \<le> output_act m' ! 0 \<and> output_act m' ! 0 \<le> 1 \<and>
      0 < fst (cross_entropy_arguments_ld (output_act m' ! 0)) \<and>
      0 < snd (cross_entropy_arguments_ld (output_act m' ! 0))"
    using forward_ld_range by blast
next
  show "\<forall>p1 p2. historical_report_ld m x = Some (p1, p2) \<longrightarrow>
      0 \<le> p1 \<and> p1 \<le> 1 \<and> 0 \<le> p2 \<and> p2 \<le> 1 \<and> p2 = round_ld (1 - p1)"
    using historical_report_ld_range by blast
qed

lemma context_model_magnitudes:
  "magnitudes_below (2 ^ 100) context_model (replicate INPUT_SIZE (1 / 4))"
  by (simp add: magnitudes_below_def context_model_def)

theorem forward_output_in_unit_interval_witness:
  "magnitudes_below (2 ^ 100) context_model (replicate INPUT_SIZE (1 / 4)) \<and>
   (\<exists>m'. forward_ld context_model (replicate INPUT_SIZE (1 / 4)) = Some m' \<and>
      0 \<le> output_act m' ! 0 \<and> output_act m' ! 0 \<le> 1 \<and>
      0 < fst (cross_entropy_arguments_ld (output_act m' ! 0)) \<and>
      0 < snd (cross_entropy_arguments_ld (output_act m' ! 0)) \<and>
      (\<exists>p2. historical_report_ld context_model (replicate INPUT_SIZE (1 / 4)) =
               Some (output_act m' ! 0, p2) \<and> 0 \<le> p2 \<and> p2 \<le> 1)) \<and>
   sigmoid_ld 50 = 1 \<and> sigmoid_ld (- 20000) = 0 \<and>
   (\<exists>feats p1 p2.
      predict_query in_place False context_model rematch_context example_query =
        Inr (Probabilities feats p1 p2, rematch_context) \<and>
      0 < p1 \<and> p1 < 1 \<and> 0 < p2 \<and> p2 < 1 \<and> p1 + p2 = 1)"
proof -
  note t = forward_output_in_unit_interval[of context_model "replicate INPUT_SIZE (1 / 4)"]
  note mg = context_model_magnitudes
  from t mg obtain m' where
    f: "forward_ld context_model (replicate INPUT_SIZE (1 / 4)) = Some m'" by blast
  from t f have r: "0 \<le> output_act m' ! 0" "output_act m' ! 0 \<le> 1"
      "0 < fst (cross_entropy_arguments_ld (output_act m' ! 0))"
      "0 < snd (cross_entropy_arguments_ld (output_act m' ! 0))"
    by blast+
  have h: "historical_report_ld context_model (replicate INPUT_SIZE (1 / 4)) =
      Some (output_act m' ! 0, round_ld (1 - output_act m' ! 0))"
    using f by (simp add: historical_report_ld_def)
  with t have "0 \<le> round_ld (1 - output_act m' ! 0)" "round_ld (1 - output_act m' ! 0) \<le> 1"
    by blast+
  with f r h have ld: "\<exists>m'. forward_ld context_model (replicate INPUT_SIZE (1 / 4)) = Some m' \<and>
      0 \<le> output_act m' ! 0 \<and> output_act m' ! 0 \<le> 1 \<and>
      0 < fst (cross_entropy_arguments_ld (output_act m' ! 0)) \<and>
      0 < snd (cross_entropy_arguments_ld (output_act m' ! 0)) \<and>
      (\<exists>p2. historical_report_ld context_model (replicate INPUT_SIZE (1 / 4)) =
               Some (output_act m' ! 0, p2) \<and> 0 \<le> p2 \<and> p2 \<le> 1)"
    by blast
  have "(45::real) \<le> 50" by simp
  with t have s: "sigmoid_ld 50 = 1" by blast
  have "(- 20000 :: real) \<le> - real LDBL_MAX_EXP" by (simp add: LDBL_MAX_EXP_def)
  with t have z: "sigmoid_ld (- 20000) = 0" by blast
  from example_query_features obtain raw0 where
    cf0: "compute_features_with in_place example_query rematch_context =
            Inr (raw0, rematch_context)" by blast
  from t example_query_not_identical context_std
  obtain feats p1 p2 c where
    run: "predict_query in_place False context_model rematch_context example_query =
            Inr (Probabilities feats p1 p2, c)" by blast
  then obtain raw where "compute_features_with in_place example_query rematch_context =
      Inr (raw, c)" by (rule predict_query_Probabilities)
  with cf0 have c: "c = rematch_context" by simp
  from t run have "0 < p1 \<and> p1 < 1 \<and> 0 < p2 \<and> p2 < 1 \<and> p1 + p2 = 1" by blast
  with run c have q: "\<exists>feats p1 p2.
      predict_query in_place False context_model rematch_context example_query =
        Inr (Probabilities feats p1 p2, rematch_context) \<and>
      0 < p1 \<and> p1 < 1 \<and> 0 < p2 \<and> p2 < 1 \<and> p1 + p2 = 1" by blast
  from mg ld s z q show ?thesis by blast
qed

lemma historical_report_ld_saturated:
  "historical_report_ld saturated_model inp = Some (1, 0)"
  by (simp add: historical_report_ld_def forward_ld_saturated round_ld_def)

lemma saturated_run:
  "forward_ld saturated_model inp =
     Some (saturated_model\<lparr>h1 := replicate HIDDEN_1_SIZE 0, h2 := replicate HIDDEN_2_SIZE 0,
                           output_act := [1]\<rparr>) \<and>
   historical_report_ld saturated_model inp = Some (1, 0)"
  using forward_ld_saturated historical_report_ld_saturated by blast

text \<open>
  C10 as stated fails. The model \<open>saturated_model\<close> has finite weights and biases (all 0
  but the output bias 50), and on the finite input of twenty zeros the long double forward
  pass leaves exactly 1 in \<^verbatim>\<open>output[0]\<close>: \<^verbatim>\<open>expl(-50)\<close> is below \<open>2\<^sup>-\<^sup>6\<^sup>4\<close>, so
  \<^verbatim>\<open>1.0L + expl(-50)\<close> rounds to 1. The historical mode then reports the
  probabilities 1 and 0, neither strictly inside the interval.
\<close>

theorem saturated_output_is_one:
  "forward_ld saturated_model (replicate INPUT_SIZE 0) =
     Some (saturated_model\<lparr>h1 := replicate HIDDEN_1_SIZE 0, h2 := replicate HIDDEN_2_SIZE 0,
                           output_act := [1]\<rparr>) \<and>
   historical_report_ld saturated_model (replicate INPUT_SIZE 0) = Some (1, 0)"
  by (rule saturated_run)


subsection \<open>Early stopping\<close>

lemma epoch_loop_step:
  assumes "epoch < max_epochs" "keep epoch"
  shows "epoch_loop val_acc keep epoch best no_improve =
     (if val_acc epoch > best then epoch_loop val_acc keep (Suc epoch) (val_acc epoch) 0
      else if Suc no_improve \<ge> patience then (Early_Stop, epoch, best)
      else epoch_loop val_acc keep (Suc epoch) best (Suc no_improve))"
  using assms by (subst epoch_loop.simps) simp

lemma epoch_head_reaches:
  "epoch_head val_acc keep e = Some (best, n) \<Longrightarrow>
     epoch_loop val_acc keep 0 0 0 = epoch_loop val_acc keep e best n"
proof (induction e arbitrary: best n)
  case 0
  then show ?case by simp
next
  case (Suc e)
  from Suc.prems obtain b k where
    h: "epoch_head val_acc keep e = Some (b, k)" and e: "e < max_epochs" "keep e" and
    nxt: "(if val_acc e > b then Some (val_acc e, 0)
           else if Suc k \<ge> patience then None else Some (b, Suc k)) = Some (best, n)"
    by (auto split: option.splits if_splits)
  from Suc.IH[OF h] have "epoch_loop val_acc keep 0 0 0 = epoch_loop val_acc keep e b k" .
  also have "\<dots> = epoch_loop val_acc keep (Suc e) best n"
    using nxt by (subst epoch_loop_step[where keep = keep and epoch = e, OF e]) (auto split: if_splits)
  finally show ?case .
qed

lemma epoch_loop_no_improvement:
  assumes "n + k = patience - 1"
    and "\<forall>j \<le> k. val_acc (e + j) \<le> best \<and> keep (e + j)"
    and "e + k < max_epochs"
  shows "epoch_loop val_acc keep e best n = (Early_Stop, e + k, best)"
  using assms
proof (induction k arbitrary: e n)
  case 0
  hence "e < max_epochs" "keep e" "\<not> val_acc e > best" "Suc n \<ge> patience" by auto
  thus ?case by (subst epoch_loop_step[where keep = keep and epoch = e]) simp_all
next
  case (Suc k)
  from Suc.prems have e: "e < max_epochs" "keep e" and ni: "\<not> val_acc e > best"
    and n: "\<not> Suc n \<ge> patience" by (auto dest: spec[of _ 0])
  have "epoch_loop val_acc keep e best n = epoch_loop val_acc keep (Suc e) best (Suc n)"
    using ni n by (subst epoch_loop_step[where keep = keep and epoch = e, OF e]) simp
  also have "\<dots> = (Early_Stop, Suc e + k, best)"
  proof (rule Suc.IH)
    show "Suc n + k = patience - 1" using Suc.prems(1) by simp
    show "\<forall>j \<le> k. val_acc (Suc e + j) \<le> best \<and> keep (Suc e + j)"
      using Suc.prems(2) by (auto dest: spec[of _ "Suc _"])
    show "Suc e + k < max_epochs" using Suc.prems(3) by simp
  qed
  finally show ?case by simp
qed

text \<open>
  C6. If the epoch loop arrives at the head of epoch \<open>best_epoch\<close> and that epoch's
  validation accuracy is strictly above the best so far, every later epoch up to
  \<open>best_epoch + 50\<close> has a validation accuracy at most equal to it (equal counts as no
  improvement), \<open>best_epoch + 50 < 500\<close> and the run is not cancelled, then the loop
  ends by early stopping in epoch \<open>best_epoch + 50\<close> (0-indexed), right after that
  epoch's validation, with that best accuracy.
\<close>

theorem early_stopping_at_patience:
  assumes reach: "epoch_head val_acc keep best_epoch = Some (prev_best, no_improve)"
    and improve: "val_acc best_epoch > prev_best"
    and later: "\<forall>e. best_epoch < e \<and> e \<le> best_epoch + patience \<longrightarrow>
                 val_acc e \<le> val_acc best_epoch"
    and bound: "best_epoch + patience < max_epochs"
    and running: "\<forall>e \<le> best_epoch + patience. keep e"
  shows "train_epochs val_acc keep = (Early_Stop, best_epoch + patience, val_acc best_epoch)"
proof -
  have b: "best_epoch < max_epochs" "keep best_epoch" using bound running by simp_all
  have "train_epochs val_acc keep = epoch_loop val_acc keep best_epoch prev_best no_improve"
    unfolding train_epochs_def by (rule epoch_head_reaches[OF reach])
  also have "\<dots> = epoch_loop val_acc keep (Suc best_epoch) (val_acc best_epoch) 0"
    using improve by (subst epoch_loop_step[where keep = keep and epoch = best_epoch, OF b]) simp
  also have "\<dots> = (Early_Stop, Suc best_epoch + 49, val_acc best_epoch)"
  proof (rule epoch_loop_no_improvement)
    show "0 + 49 = patience - 1" by simp
    show "\<forall>j \<le> 49. val_acc (Suc best_epoch + j) \<le> val_acc best_epoch \<and> keep (Suc best_epoch + j)"
      using later running by simp
    show "Suc best_epoch + 49 < max_epochs" using bound by simp
  qed
  finally show ?thesis by simp
qed

theorem early_stopping_at_patience_witness:
  "epoch_head peak_at_3 never_cancelled 3 = Some (0.5, 2) \<and>
   peak_at_3 3 > 0.5 \<and>
   (3::nat) + patience < max_epochs \<and>
   train_epochs peak_at_3 never_cancelled = (Early_Stop, 53, 0.75)"
proof -
  have reach: "epoch_head peak_at_3 never_cancelled 3 = Some (0.5, 2)"
    by (simp add: eval_nat_numeral peak_at_3_def never_cancelled_def)
  have improve: "peak_at_3 3 > 0.5" by (simp add: peak_at_3_def)
  have later: "\<forall>e. 3 < e \<and> e \<le> 3 + patience \<longrightarrow> peak_at_3 e \<le> peak_at_3 3"
    by (simp add: peak_at_3_def)
  have bound: "(3::nat) + patience < max_epochs" by simp
  have running: "\<forall>e \<le> 3 + patience. never_cancelled e" by (simp add: never_cancelled_def)
  have v: "peak_at_3 3 = 0.75" by (simp add: peak_at_3_def)
  from early_stopping_at_patience[OF reach improve later bound running] reach improve bound
  show ?thesis by (simp add: v)
qed

subsection \<open>Threshold search\<close>














subsection \<open>Persistence\<close>
















end
